theory Spec2Isabelle
  imports
    Main
    "HOL-Library.Char_ord"
    "HOL-Library.List_Lexorder"
    "HOL-Library.Product_Lexorder"
begin

section \<open>JavaScript values\<close>

text \<open>
  The handler of \<^verbatim>\<open>api/test-ranking.js\<close> (last revision of the file, lines 768-1514)
  works on the values that \<^verbatim>\<open>JSON.parse\<close> yields and that the Upstash REST endpoint
  answers in its envelope \<^verbatim>\<open>{result: ...}\<close>.  A value is a tree; an object keeps its
  properties in enumeration order.  Numbers are exact integers: the handler coerces
  \<^verbatim>\<open>score\<close> and \<^verbatim>\<open>efficiency\<close> with \<^verbatim>\<open>parseInt\<close>; rounding to doubles and
  fractional accuracies are outside the model.  What is kept of the numbers of
  JavaScript is how they are written: in digits below \<^verbatim>\<open>1e21\<close>, in exponent form
  from there on.  Strings are byte strings.
\<close>

datatype json =
    JNull
  | JBool bool
  | JNum int
  | JStr string
  | JArr "json list"
  | JObj "(string \<times> json) list"

text \<open>\<^verbatim>\<open>v.k\<close> for a property name that is not built in; \<open>None\<close> is \<^verbatim>\<open>undefined\<close>.
  (On \<^verbatim>\<open>null\<close> the access throws; the callers test for \<^verbatim>\<open>null\<close> first.)\<close>

fun js_get :: "json \<Rightarrow> string \<Rightarrow> json option" where
  "js_get (JObj kvs) k = map_of kvs k"
| "js_get v k = None"

fun truthy :: "json \<Rightarrow> bool" where
  "truthy JNull = False"
| "truthy (JBool b) = b"
| "truthy (JNum n) = (n \<noteq> 0)"
| "truthy (JStr s) = (s \<noteq> [])"
| "truthy (JArr vs) = True"
| "truthy (JObj kvs) = True"

subsection \<open>Numbers as text\<close>

fun show_nat :: "nat \<Rightarrow> string" where
  "show_nat n =
     (if n < 10 then [char_of (48 + n)]
      else show_nat (n div 10) @ [char_of (48 + n mod 10)])"

declare show_nat.simps [simp del]

text \<open>An integer in decimal digits.\<close>

definition show_int :: "int \<Rightarrow> string" where
  "show_int i = (if i < 0 then CHR ''-'' # show_nat (nat (- i)) else show_nat (nat i))"

text \<open>
  The exponent form of a natural number: its first digit, a point and the digits up to
  the last one that is not zero, if there are any, and the exponent, as in
  \<^verbatim>\<open>1e+21\<close> and \<^verbatim>\<open>1.25e+22\<close>.
\<close>

definition exponent_form :: "nat \<Rightarrow> string" where
  "exponent_form n =
     (case show_nat n of
        [] \<Rightarrow> []
      | d # ds \<Rightarrow>
          (let fraction = rev (dropWhile (\<lambda>c. c = CHR ''0'') (rev ds)) in
           d # (if fraction = [] then [] else CHR ''.'' # fraction)
             @ ''e+'' @ show_nat (length ds)))"

text \<open>
  \<^verbatim>\<open>n.toString()\<close> of an integer, which is also how \<^verbatim>\<open>JSON.stringify\<close> writes it and
  how a score comes back in a reply: digits below \<^verbatim>\<open>1e21\<close>, exponent form from there
  on.  (The digits of the exponent form are those of the integer itself, not of the
  double next to it; up to the point they are the same but for a carry into the first
  digit.)
\<close>

definition Number_toString :: "int \<Rightarrow> string" where
  "Number_toString n =
     (if \<bar>n\<bar> < 1000000000000000000000 then show_int n
      else (if n < 0 then ''-'' else []) @ exponent_form (nat \<bar>n\<bar>))"

definition is_space :: "char \<Rightarrow> bool" where
  "is_space c =
     (c = CHR 0x09 \<or> c = CHR 0x0A \<or> c = CHR 0x0B \<or> c = CHR 0x0C \<or> c = CHR 0x0D \<or> c = CHR 0x20)"

text \<open>The value of a digit in any radix up to 36; 36 for a character that is no digit.\<close>

definition digit_val :: "char \<Rightarrow> nat" where
  "digit_val c =
     (let n = of_char c :: nat in
      if 48 \<le> n \<and> n \<le> 57 then n - 48
      else if 97 \<le> n \<and> n \<le> 122 then n - 87
      else if 65 \<le> n \<and> n \<le> 90 then n - 55
      else 36)"

text \<open>
  \<^verbatim>\<open>parseInt(string)\<close> without a radix: leading white space is skipped (the six ASCII
  characters of white space; the others span several bytes and are left out), a sign is
  read, a prefix \<^verbatim>\<open>0x\<close> selects radix 16, the longest prefix of digits is the value,
  and no digit at all is \<^verbatim>\<open>NaN\<close> (\<open>None\<close>).
\<close>

definition parseInt :: "string \<Rightarrow> int option" where
  "parseInt inputString =
     (let S = dropWhile is_space inputString;
          sign = (if take 1 S = ''-'' then - 1 else 1);
          S = (if take 1 S = ''+'' \<or> take 1 S = ''-'' then drop 1 S else S);
          hex = (take 2 S = ''0x'' \<or> take 2 S = ''0X'');
          R = (if hex then 16 else 10);
          S = (if hex then drop 2 S else S);
          Z = takeWhile (\<lambda>c. digit_val c < R) S
      in if Z = [] then None
         else Some (sign * int (foldl (\<lambda>a c. a * R + digit_val c) 0 Z)))"

subsection \<open>Serialisation\<close>

fun join :: "string \<Rightarrow> string list \<Rightarrow> string" where
  "join sep [] = []"
| "join sep [x] = x"
| "join sep (x # y # ys) = x @ sep @ join sep (y # ys)"

definition hex_digit :: "nat \<Rightarrow> char" where
  "hex_digit d = (if d < 10 then char_of (48 + d) else char_of (87 + d))"

definition escape_char :: "char \<Rightarrow> string" where
  "escape_char c =
     (if c = CHR 0x08 then [CHR 0x5C, CHR ''b'']
      else if c = CHR 0x09 then [CHR 0x5C, CHR ''t'']
      else if c = CHR 0x0A then [CHR 0x5C, CHR ''n'']
      else if c = CHR 0x0C then [CHR 0x5C, CHR ''f'']
      else if c = CHR 0x0D then [CHR 0x5C, CHR ''r'']
      else if c = CHR 0x22 then [CHR 0x5C, CHR 0x22]
      else if c = CHR 0x5C then [CHR 0x5C, CHR 0x5C]
      else if (of_char c :: nat) < 32
        then [CHR 0x5C, CHR ''u'', CHR ''0'', CHR ''0'',
              hex_digit (of_char c div 16), hex_digit (of_char c mod 16)]
      else [c])"

definition quote :: "string \<Rightarrow> string" where
  "quote s = CHR 0x22 # concat (map escape_char s) @ [CHR 0x22]"

text \<open>\<^verbatim>\<open>JSON.stringify(v)\<close>: no white space, properties in enumeration order.\<close>

fun JSON_stringify :: "json \<Rightarrow> string" where
  "JSON_stringify JNull = ''null''"
| "JSON_stringify (JBool b) = (if b then ''true'' else ''false'')"
| "JSON_stringify (JNum n) = Number_toString n"
| "JSON_stringify (JStr s) = quote s"
| "JSON_stringify (JArr vs) = ''['' @ join '','' (map JSON_stringify vs) @ '']''"
| "JSON_stringify (JObj kvs) =
     ''{'' @ join '','' (map (\<lambda>(k, v). quote k @ '':'' @ JSON_stringify v) kvs) @ ''}''"

text \<open>The conversion of a value to a string that \<^verbatim>\<open>parseInt\<close>, \<^verbatim>\<open>JSON.parse\<close> and the
  comparison operators apply to an argument that is no string.\<close>

fun ToString :: "json \<Rightarrow> string" where
  "ToString JNull = ''null''"
| "ToString (JBool b) = (if b then ''true'' else ''false'')"
| "ToString (JNum n) = Number_toString n"
| "ToString (JStr s) = s"
| "ToString (JArr vs) = join '','' (map (\<lambda>v. if v = JNull then [] else ToString v) vs)"
| "ToString (JObj kvs) = ''[object Object]''"

subsection \<open>What the runtime provides\<close>

text \<open>
  Two operations of the JavaScript runtime are parameters of the model, so that every
  theorem holds whatever they compute: \<^verbatim>\<open>JSON.parse\<close> (\<open>None\<close> when it throws) and the
  conversion of a string to a number that the comparison operators apply (\<open>None\<close> for
  \<^verbatim>\<open>NaN\<close>).
\<close>

record runtime =
  JSON_parse :: "string \<Rightarrow> json option"
  StringToNumber :: "string \<Rightarrow> int option"

definition ToNumber :: "runtime \<Rightarrow> json \<Rightarrow> int option" where
  "ToNumber rt v =
     (case v of
        JNull \<Rightarrow> Some 0
      | JBool b \<Rightarrow> Some (if b then 1 else 0)
      | JNum n \<Rightarrow> Some n
      | _ \<Rightarrow> StringToNumber rt (ToString v))"

text \<open>\<^verbatim>\<open>n <= v\<close> and \<^verbatim>\<open>v > n\<close> for a number \<open>n\<close>; a comparison with \<^verbatim>\<open>NaN\<close> is false.\<close>

definition js_le :: "runtime \<Rightarrow> int \<Rightarrow> json \<Rightarrow> bool" where
  "js_le rt n v = (case ToNumber rt v of None \<Rightarrow> False | Some m \<Rightarrow> n \<le> m)"

definition js_gt :: "runtime \<Rightarrow> json \<Rightarrow> int \<Rightarrow> bool" where
  "js_gt rt v n = (case ToNumber rt v of None \<Rightarrow> False | Some m \<Rightarrow> n < m)"

text \<open>\<^verbatim>\<open>v + 1\<close>: a sum of numbers, or a concatenation when \<open>v\<close> converts to a string.\<close>

definition js_add1 :: "json \<Rightarrow> json" where
  "js_add1 v =
     (case v of
        JNull \<Rightarrow> JNum 1
      | JBool b \<Rightarrow> JNum (if b then 2 else 1)
      | JNum n \<Rightarrow> JNum (n + 1)
      | _ \<Rightarrow> JStr (ToString v @ ''1''))"

section \<open>The backing store\<close>

text \<open>
  The handler talks to a Redis service through single commands.  The store is one key
  space; a key holds a string or a sorted set.  A sorted set is kept as the list of its
  (score, member) pairs in ascending order, equal scores ordered by the bytes of the
  member, which is the order of the ranks of \<^verbatim>\<open>ZRANGE\<close> and \<^verbatim>\<open>ZREMRANGEBYRANK\<close>
  (``0-based, ascending order'', line 1258); \<^verbatim>\<open>ZREVRANGE\<close> and \<^verbatim>\<open>ZREVRANK\<close> read it
  backwards.  A sorted set that becomes empty is removed with its key.

  The handler sends the score of an insertion as the text of the number (line 1214);
  the store reads it back to the number.  In a reply the store writes a score as
  JavaScript writes the number.
\<close>

datatype rvalue = RString string | RZSet "(int \<times> string) list"

type_synonym store = "string \<Rightarrow> rvalue option"

text \<open>The commands the handler sends; both range reads are sent \<^verbatim>\<open>WITHSCORES\<close>.\<close>

datatype command =
    PING
  | GET string
  | SET string string
  | DEL string
  | EXISTS string
  | ZADD string int string
  | ZREM string string
  | ZCARD string
  | ZRANGE string int int
  | ZREVRANGE string int int
  | ZREVRANK string string
  | ZREMRANGEBYRANK string int int
  | ZSCORE string string

datatype error = WRONGTYPE | Failed_to_add_score

definition zset_at :: "store \<Rightarrow> string \<Rightarrow> error + (int \<times> string) list" where
  "zset_at s k =
     (case s k of
        None \<Rightarrow> Inr []
      | Some (RZSet xs) \<Rightarrow> Inr xs
      | Some (RString v) \<Rightarrow> Inl WRONGTYPE)"

definition put_zset :: "string \<Rightarrow> (int \<times> string) list \<Rightarrow> store \<Rightarrow> store" where
  "put_zset k xs s = (if xs = [] then s(k := None) else s(k \<mapsto> RZSet xs))"

text \<open>
  The ranks \<open>start\<close> to \<open>stop\<close> of a set of \<open>n\<close> members, as offset and count: a negative
  index counts from the end, the range is clipped to the set.
\<close>

definition rank_range :: "int \<Rightarrow> int \<Rightarrow> nat \<Rightarrow> nat \<times> nat" where
  "rank_range start stop n =
     (let llen = int n;
          start = (if start < 0 then llen + start else start);
          stop = (if stop < 0 then llen + stop else stop);
          start = (if start < 0 then 0 else start)
      in if start > stop \<or> start \<ge> llen then (0, 0)
         else (nat start, nat ((if stop \<ge> llen then llen - 1 else stop) - start + 1)))"

text \<open>A reply \<^verbatim>\<open>WITHSCORES\<close>: each member, followed by the text of its score, which is
  in exponent form from \<^verbatim>\<open>1e21\<close> on.\<close>

definition with_scores :: "(int \<times> string) list \<Rightarrow> json" where
  "with_scores xs = JArr (concat (map (\<lambda>(sc, m). [JStr m, JStr (Number_toString sc)]) xs))"

fun index_of :: "'a \<Rightarrow> 'a list \<Rightarrow> nat option" where
  "index_of x [] = None"
| "index_of x (y # ys) = (if x = y then Some 0 else map_option Suc (index_of x ys))"

text \<open>One command against the store: the \<^verbatim>\<open>result\<close> of the reply and the new store, or
  the error of the reply.\<close>

fun redis :: "command \<Rightarrow> store \<Rightarrow> error + json \<times> store" where
  "redis PING s = Inr (JStr ''PONG'', s)"
| "redis (GET k) s =
     (case s k of
        None \<Rightarrow> Inr (JNull, s)
      | Some (RString v) \<Rightarrow> Inr (JStr v, s)
      | Some (RZSet xs) \<Rightarrow> Inl WRONGTYPE)"
| "redis (SET k v) s = Inr (JStr ''OK'', s(k \<mapsto> RString v))"
| "redis (DEL k) s = Inr (JNum (if s k = None then 0 else 1), s(k := None))"
| "redis (EXISTS k) s = Inr (JNum (if s k = None then 0 else 1), s)"
| "redis (ZADD k sc m) s =
     (case zset_at s k of
        Inl e \<Rightarrow> Inl e
      | Inr xs \<Rightarrow>
          Inr (JNum (if m \<in> set (map snd xs) then 0 else 1),
               put_zset k (insort (sc, m) (filter (\<lambda>x. snd x \<noteq> m) xs)) s))"
| "redis (ZREM k m) s =
     (case zset_at s k of
        Inl e \<Rightarrow> Inl e
      | Inr xs \<Rightarrow>
          Inr (JNum (if m \<in> set (map snd xs) then 1 else 0),
               put_zset k (filter (\<lambda>x. snd x \<noteq> m) xs) s))"
| "redis (ZCARD k) s =
     (case zset_at s k of
        Inl e \<Rightarrow> Inl e
      | Inr xs \<Rightarrow> Inr (JNum (int (length xs)), s))"
| "redis (ZRANGE k start stop) s =
     (case zset_at s k of
        Inl e \<Rightarrow> Inl e
      | Inr xs \<Rightarrow>
          (case rank_range start stop (length xs) of
             (off, cnt) \<Rightarrow> Inr (with_scores (take cnt (drop off xs)), s)))"
| "redis (ZREVRANGE k start stop) s =
     (case zset_at s k of
        Inl e \<Rightarrow> Inl e
      | Inr xs \<Rightarrow>
          (case rank_range start stop (length xs) of
             (off, cnt) \<Rightarrow> Inr (with_scores (take cnt (drop off (rev xs))), s)))"
| "redis (ZREVRANK k m) s =
     (case zset_at s k of
        Inl e \<Rightarrow> Inl e
      | Inr xs \<Rightarrow>
          Inr (case index_of m (map snd (rev xs)) of
                 None \<Rightarrow> JNull
               | Some i \<Rightarrow> JNum (int i), s))"
| "redis (ZREMRANGEBYRANK k start stop) s =
     (case zset_at s k of
        Inl e \<Rightarrow> Inl e
      | Inr xs \<Rightarrow>
          (case rank_range start stop (length xs) of
             (off, cnt) \<Rightarrow>
               Inr (JNum (int cnt), put_zset k (take off xs @ drop (off + cnt) xs) s)))"
| "redis (ZSCORE k m) s =
     (case zset_at s k of
        Inl e \<Rightarrow> Inl e
      | Inr xs \<Rightarrow>
          Inr (case find (\<lambda>x. snd x = m) xs of
                 None \<Rightarrow> JNull
               | Some x \<Rightarrow> JStr (Number_toString (fst x)), s))"

section \<open>The handler\<close>

text \<open>
  A request runs against the store and leaves a trace of the commands it sent.  A reply
  with an error makes \<^verbatim>\<open>upstashCommand\<close> throw (line 888); the request ends there with
  the store as it is, and the handler's last \<^verbatim>\<open>catch\<close> answers status 500.  The store of
  the model answers every command it is sent; a command that is lost on the network is
  outside the model.

  Modelled are the three operations the properties below are about: the fetch of the
  rankings of a mode (GET without the connection test), the submission of a score (POST,
  from the point where its fields are validated) and the reset of all rankings (DELETE
  with \<^verbatim>\<open>resetAll\<close>, for an authorised caller).
\<close>

record world =
  db :: store
  sent :: "command list"

type_synonym 'a handler = "world \<Rightarrow> (error + 'a) \<times> world"

definition upstashCommand :: "command \<Rightarrow> json handler" where
  "upstashCommand c w =
     (case redis c (db w) of
        Inl e \<Rightarrow> (Inl e, w\<lparr>sent := sent w @ [c]\<rparr>)
      | Inr (r, s) \<Rightarrow> (Inr r, \<lparr>db = s, sent = sent w @ [c]\<rparr>))"

definition return :: "'a \<Rightarrow> 'a handler" where
  "return x w = (Inr x, w)"

definition throw :: "error \<Rightarrow> 'a handler" where
  "throw e w = (Inl e, w)"

text \<open>\<^verbatim>\<open>const x = await m; f x\<close>\<close>

definition await :: "'a handler \<Rightarrow> ('a \<Rightarrow> 'b handler) \<Rightarrow> 'b handler" where
  "await m f w = (case m w of (Inl e, w') \<Rightarrow> (Inl e, w') | (Inr x, w') \<Rightarrow> f x w')"

definition ranking_key :: "string \<Rightarrow> string" where
  "ranking_key m = ''ranking:'' @ m"

definition player_key :: "string \<Rightarrow> string \<Rightarrow> string" where
  "player_key m n = ''player:'' @ m @ '':'' @ n"

text \<open>The array of a reply (lines 972-1021, and 1293-1321 again).\<close>

definition result_array :: "runtime \<Rightarrow> json \<Rightarrow> json list" where
  "result_array rt r =
     (case r of
        JArr xs \<Rightarrow> xs
      | JStr s \<Rightarrow> (case JSON_parse rt s of Some (JArr ys) \<Rightarrow> ys | _ \<Rightarrow> [])
      | _ \<Rightarrow> [])"

subsection \<open>GET: the rankings of a mode\<close>

text \<open>
  An entry of the answer: the fields of a parsed member, each possibly \<^verbatim>\<open>undefined\<close>,
  or a legacy entry of name and efficiency.  The efficiency is the result of
  \<^verbatim>\<open>parseInt\<close>, \<open>None\<close> for \<^verbatim>\<open>NaN\<close>.
\<close>

datatype ScoreEntry =
    Structured "json option" "json option" "json option" "int option" "json option"
  | Legacy json "int option"

fun entry_efficiency :: "ScoreEntry \<Rightarrow> int option" where
  "entry_efficiency (Structured n s a e d) = e"
| "entry_efficiency (Legacy n e) = e"

text \<open>The body of the loop (lines 1075-1103).  \<^verbatim>\<open>data.name\<close> throws when the member
  parses to \<^verbatim>\<open>null\<close>, which the \<^verbatim>\<open>catch\<close> turns into a legacy entry as well.\<close>

definition parse_entry :: "runtime \<Rightarrow> json \<Rightarrow> json \<Rightarrow> ScoreEntry" where
  "parse_entry rt dataStr efficiencyStr =
     (let efficiency = parseInt (ToString efficiencyStr) in
      case JSON_parse rt (ToString dataStr) of
        None \<Rightarrow> Legacy dataStr efficiency
      | Some JNull \<Rightarrow> Legacy dataStr efficiency
      | Some data \<Rightarrow>
          Structured (js_get data ''name'') (js_get data ''score'') (js_get data ''accuracy'')
            efficiency (js_get data ''date''))"

text \<open>The loop over the pairs (lines 1069-1104); it stops at an element without a partner.\<close>

fun parse_rankings :: "runtime \<Rightarrow> json list \<Rightarrow> ScoreEntry list" where
  "parse_rankings rt (dataStr # efficiencyStr # scores) =
     parse_entry rt dataStr efficiencyStr # parse_rankings rt scores"
| "parse_rankings rt [dataStr] = []"
| "parse_rankings rt [] = []"

text \<open>Lines 952-1111; \<open>m\<close> is the \<^verbatim>\<open>mode\<close> of the query, empty when it is missing.\<close>

definition fetch :: "runtime \<Rightarrow> string \<Rightarrow> ScoreEntry list handler" where
  "fetch rt m =
     (let key = ranking_key (if m = [] then ''flick'' else m) in
      await (upstashCommand (ZREVRANGE key 0 49)) (\<lambda>result.
      await
        (let scores = result_array rt result in
         if scores = [] then
           await (upstashCommand (EXISTS key)) (\<lambda>existsValue.
             if existsValue = JNum 1 \<or> existsValue = JBool True then
               await (upstashCommand (ZCARD key)) (\<lambda>cardResult.
               await (upstashCommand (ZRANGE key 0 (- 1))) (\<lambda>altResult.
                 return (case altResult of JArr (x # xs) \<Rightarrow> x # xs | _ \<Rightarrow> scores)))
             else return scores)
         else return scores) (\<lambda>scores.
      if scores = [] then await (upstashCommand (EXISTS key)) (\<lambda>exists. return [])
      else return (parse_rankings rt scores))))"

subsection \<open>POST: a score is submitted\<close>

text \<open>
  The body of the request after its validation (lines 1117-1146): \<^verbatim>\<open>mode\<close> and
  \<^verbatim>\<open>name\<close> are not empty, the three numbers have been coerced.
\<close>

record body =
  mode :: string
  name :: string
  score :: int
  accuracy :: int
  efficiency :: int

definition scoreData :: "body \<Rightarrow> string \<Rightarrow> json" where
  "scoreData b today =
     JObj [(''name'', JStr (name b)), (''score'', JNum (score b)),
           (''accuracy'', JNum (accuracy b)), (''efficiency'', JNum (efficiency b)),
           (''date'', JStr today)]"

datatype response = NotUpdated | Updated json

text \<open>
  Lines 1157-1176: the value of \<^verbatim>\<open>existing\<close>, or \<open>None\<close> when the reply is falsy and the
  handler goes on with ``no existing score''.
\<close>

definition read_existing :: "runtime \<Rightarrow> json \<Rightarrow> json option" where
  "read_existing rt existingValue =
     (if truthy existingValue then
        Some (case existingValue of
                JStr s \<Rightarrow> (case JSON_parse rt s of None \<Rightarrow> JNull | Some v \<Rightarrow> v)
              | JArr vs \<Rightarrow> existingValue
              | JObj kvs \<Rightarrow> existingValue
              | _ \<Rightarrow> JNull)
      else None)"

text \<open>Lines 1213-1249: the insertion, with its check of the reply; a failure is thrown
  again as an error of its own.\<close>

definition add_score :: "string \<Rightarrow> int \<Rightarrow> string \<Rightarrow> unit handler" where
  "add_score key eff scoreDataStr w =
     (case upstashCommand (ZADD key eff scoreDataStr) w of
        (Inl addError, w') \<Rightarrow> throw Failed_to_add_score w'
      | (Inr addSuccess, w') \<Rightarrow>
          (case addSuccess of
             JNull \<Rightarrow> throw Failed_to_add_score w'
           | JNum n \<Rightarrow> if n < 0 then throw Failed_to_add_score w' else return () w'
           | _ \<Rightarrow> return () w'))"

text \<open>Lines 1280-1370: the handler reads back what it saved, only to log it.\<close>

fun evens :: "'a list \<Rightarrow> 'a list" where
  "evens (x # y # zs) = x # evens zs"
| "evens [x] = [x]"
| "evens [] = []"

definition matches :: "runtime \<Rightarrow> body \<Rightarrow> json \<Rightarrow> bool" where
  "matches rt b item =
     (case JSON_parse rt (ToString item) of
        None \<Rightarrow> False
      | Some JNull \<Rightarrow> False
      | Some data \<Rightarrow>
          js_get data ''name'' = Some (JStr (name b)) \<and>
          parseInt (case js_get data ''efficiency'' of
                      None \<Rightarrow> ''undefined''
                    | Some e \<Rightarrow> ToString e)
            = parseInt (Number_toString (efficiency b)))"

definition verify_saved :: "runtime \<Rightarrow> body \<Rightarrow> string \<Rightarrow> unit handler" where
  "verify_saved rt b scoreDataStr =
     (let key = ranking_key (mode b) in
      await (upstashCommand (ZCARD key)) (\<lambda>cardResult.
      await (upstashCommand (ZREVRANGE key 0 9)) (\<lambda>verifyResult.
        let verifyScores = result_array rt verifyResult in
        if verifyScores \<noteq> [] \<and> \<not> list_ex (matches rt b) (evens verifyScores) then
          await (upstashCommand (ZSCORE key scoreDataStr)) (\<lambda>zscoreResult. return ())
        else return ())))"

text \<open>
  Lines 1256-1269, ``Trim to top 50 (keep top 50, remove the rest)'': when the set has
  more than 50 members, the ranks from 50 to the last are removed.
\<close>

definition trim_to_top_50 :: "runtime \<Rightarrow> string \<Rightarrow> unit handler" where
  "trim_to_top_50 rt key =
     await (upstashCommand (ZCARD key)) (\<lambda>currentCount.
       if truthy currentCount \<and> js_gt rt currentCount 50 then
         await (upstashCommand (ZREMRANGEBYRANK key 50 (- 1))) (\<lambda>trimResult. return ())
       else return ())"

text \<open>Lines 1198-1376: the new entry is inserted, the player's best is overwritten, the
  set is trimmed and the rank is looked up.\<close>

definition save_score :: "runtime \<Rightarrow> string \<Rightarrow> body \<Rightarrow> response handler" where
  "save_score rt today b =
     (let key = ranking_key (mode b);
          playerKey = player_key (mode b) (name b);
          scoreDataStr = JSON_stringify (scoreData b today) in
      await (add_score key (efficiency b) scoreDataStr) (\<lambda>added.
      await (upstashCommand (SET playerKey scoreDataStr)) (\<lambda>setResult.
      await (trim_to_top_50 rt key) (\<lambda>trimmed.
      await (upstashCommand (ZREVRANK key scoreDataStr)) (\<lambda>rankValue.
      let playerRank = (if rankValue \<noteq> JNull then js_add1 rankValue else JNum 51) in
      await (verify_saved rt b scoreDataStr) (\<lambda>verified.
      return (Updated playerRank)))))))"

text \<open>Lines 1148-1196, then the above.\<close>

definition submit :: "runtime \<Rightarrow> string \<Rightarrow> body \<Rightarrow> response handler" where
  "submit rt today b =
     (let key = ranking_key (mode b);
          playerKey = player_key (mode b) (name b) in
      await (upstashCommand (GET playerKey)) (\<lambda>existingValue.
      case read_existing rt existingValue of
        None \<Rightarrow> save_score rt today b
      | Some existing \<Rightarrow>
          (if truthy existing then
             (case js_get existing ''efficiency'' of
                None \<Rightarrow> save_score rt today b
              | Some e \<Rightarrow>
                  if js_le rt (efficiency b) e then return NotUpdated
                  else await (upstashCommand (ZREM key (JSON_stringify existing)))
                         (\<lambda>removed. save_score rt today b))
           else save_score rt today b)))"

subsection \<open>DELETE with \<^verbatim>\<open>resetAll\<close>\<close>

text \<open>Lines 1391-1417, for a caller that passed the check of the password.\<close>

definition modes :: "string list" where
  "modes = [''flick'', ''tracking'', ''grid'']"

fun reset_loop :: "string list \<Rightarrow> string list \<Rightarrow> string list handler" where
  "reset_loop [] deletedKeys = return deletedKeys"
| "reset_loop (m # ms) deletedKeys =
     (let key = ranking_key m in
      await (upstashCommand (EXISTS key)) (\<lambda>existsValue.
        if existsValue = JNum 1 \<or> existsValue = JBool True then
          await (upstashCommand (DEL key)) (\<lambda>deleted. reset_loop ms (deletedKeys @ [key]))
        else reset_loop ms deletedKeys))"

definition resetAll :: "string list handler" where
  "resetAll = reset_loop modes []"

section \<open>What the properties are stated with\<close>

text \<open>
  The representation of a sorted set is in order when its pairs ascend and no member
  occurs twice; every command keeps it so.
\<close>

definition zset_ok :: "store \<Rightarrow> string \<Rightarrow> bool" where
  "zset_ok s k =
     (case s k of Some (RZSet xs) \<Rightarrow> sorted xs \<and> distinct (map snd xs) | _ \<Rightarrow> True)"

text \<open>
  The scores of a sorted set are plain when each of them is written in digits, which is
  so for a magnitude below \<^verbatim>\<open>1e21\<close>.
\<close>

definition plain_scores :: "store \<Rightarrow> string \<Rightarrow> bool" where
  "plain_scores s k =
     (case s k of
        Some (RZSet xs) \<Rightarrow> list_all (\<lambda>x. \<bar>fst x\<bar> < 1000000000000000000000) xs
      | _ \<Rightarrow> True)"

text \<open>The number of members of the sorted set at a key.\<close>

definition zcard :: "store \<Rightarrow> string \<Rightarrow> nat" where
  "zcard s k = (case s k of Some (RZSet xs) \<Rightarrow> length xs | _ \<Rightarrow> 0)"

text \<open>
  Requests that are served one after the other, each with the date of its day; a
  request that fails does not stop the next one.
\<close>

fun submit_all ::
  "runtime \<Rightarrow> (string \<times> body) list \<Rightarrow> world \<Rightarrow> (error + response) list \<times> world"
where
  "submit_all rt [] w = ([], w)"
| "submit_all rt ((today, b) # reqs) w =
     (case submit rt today b w of
        (r, w') \<Rightarrow> (case submit_all rt reqs w' of (rs, w'') \<Rightarrow> (r # rs, w'')))"

definition empty_world :: world where
  "empty_world = \<lparr>db = Map.empty, sent = []\<rparr>"

subsection \<open>Sample requests\<close>

text \<open>
  The scenario of section 8 of the specification: players 1, 2, 3, ... of mode
  \<^verbatim>\<open>tracking\<close>; player \<open>i\<close> submits the efficiency \<open>i\<close>.  \<open>entry_of i\<close> is the pair that
  the submission of player \<open>i\<close> adds to the sorted set.
\<close>

definition player :: "nat \<Rightarrow> body" where
  "player i =
     \<lparr>mode = ''tracking'', name = ''player'' @ show_nat i, score = 100 * int i,
      accuracy = 90, efficiency = int i\<rparr>"

definition roster :: "nat \<Rightarrow> (string \<times> body) list" where
  "roster n = map (\<lambda>i. (''2025/1/1'', player i)) [1 ..< Suc n]"

definition entry_of :: "nat \<Rightarrow> int \<times> string" where
  "entry_of i = (int i, JSON_stringify (scoreData (player i) ''2025/1/1''))"

text \<open>Two players of mode \<^verbatim>\<open>flick\<close>.\<close>

definition alice :: "int \<Rightarrow> body" where
  "alice e = \<lparr>mode = ''flick'', name = ''Alice'', score = 1000, accuracy = 95, efficiency = e\<rparr>"

definition bob :: body where
  "bob = \<lparr>mode = ''flick'', name = ''Bob'', score = 900, accuracy = 90, efficiency = 80\<rparr>"

text \<open>
  A third player of mode \<^verbatim>\<open>flick\<close>, whose request carries the efficiency as the text
  \<^verbatim>\<open>"1000000000000000000000"\<close> of 22 digits; \<^verbatim>\<open>parseInt\<close> (line 1141) reads the number
  \<^verbatim>\<open>1e21\<close> from it, which is not \<^verbatim>\<open>NaN\<close> (line 1143).
\<close>

definition big :: body where
  "big = \<lparr>mode = ''flick'', name = ''Big'', score = 1000, accuracy = 95,
           efficiency = 1000000000000000000000\<rparr>"

text \<open>The world after Alice has submitted the efficiency 80 to an empty store.\<close>

definition alice_world :: world where
  "alice_world =
     \<lparr>db = [player_key ''flick'' ''Alice'' \<mapsto>
                 RString (JSON_stringify (scoreData (alice 80) ''2025/1/1'')),
             ranking_key ''flick'' \<mapsto>
                 RZSet [(80, JSON_stringify (scoreData (alice 80) ''2025/1/1''))]],
      sent = []\<rparr>"

text \<open>A ranking of two legacy members, bare names.\<close>

definition legacy_world :: world where
  "legacy_world =
     \<lparr>db = [''ranking:flick'' \<mapsto> RZSet [(70, ''Carol''), (80, ''Dave'')]], sent = []\<rparr>"

text \<open>A store where the value under Alice's key is no JSON text.\<close>

definition garbage_world :: world where
  "garbage_world = \<lparr>db = [player_key ''flick'' ''Alice'' \<mapsto> RString ''not json''], sent = []\<rparr>"

text \<open>
  A runtime for the examples: its \<^verbatim>\<open>JSON.parse\<close> reads the texts of the entries of the
  two players and throws on every other text.
\<close>

definition table_parse :: "json list \<Rightarrow> string \<Rightarrow> json option" where
  "table_parse vs s = find (\<lambda>v. JSON_stringify v = s) vs"

definition test_runtime :: runtime where
  "test_runtime =
     \<lparr>JSON_parse = table_parse
        [scoreData (alice 80) ''2025/1/1'', scoreData (alice 70) ''2025/1/1'',
         scoreData (alice 90) ''2025/1/1'', scoreData bob ''2025/1/1''],
      StringToNumber = (\<lambda>s. None)\<rparr>"

section \<open>Properties\<close>

subsection \<open>The handler's steps\<close>

lemma await_return [simp]: "await (return x) f = f x"
  by (simp add: await_def return_def fun_eq_iff)

lemma await_Inr: "m w = (Inr x, w') \<Longrightarrow> await m f w = f x w'"
  by (simp add: await_def)

lemma await_Inl: "m w = (Inl e, w') \<Longrightarrow> await m f w = (Inl e, w')"
  by (simp add: await_def)

lemma keys_differ [simp]: "ranking_key m \<noteq> player_key m' n" "player_key m' n \<noteq> ranking_key m"
  by (simp_all add: ranking_key_def player_key_def)

lemma ranking_key_inj [simp]: "(ranking_key m = ranking_key m') = (m = m')"
  by (simp add: ranking_key_def)

lemma rank_range_trim: "50 < n \<Longrightarrow> rank_range 50 (- 1) n = (50, n - 50)"
  by (auto simp add: rank_range_def Let_def)

lemma rank_range_top: "rank_range 0 (int k) n = (0, min (Suc k) n)"
  by (auto simp add: rank_range_def Let_def)

lemma rank_range_all: "rank_range 0 (- 1) n = (0, n)"
  by (auto simp add: rank_range_def Let_def)

lemma read_only_ZCARD:
  "zset_at (db w) k = Inr xs \<Longrightarrow>
   upstashCommand (ZCARD k) w = (Inr (JNum (int (length xs))), \<lparr>db = db w, sent = sent w @ [ZCARD k]\<rparr>)"
  by (simp add: upstashCommand_def)

lemma verify_saved_ok:
  assumes "zset_at (db w) (ranking_key (mode b)) = Inr xs"
  shows "\<exists>cs. verify_saved rt b str w = (Inr (), \<lparr>db = db w, sent = sent w @ cs\<rparr>) \<and>
              set cs \<subseteq> {ZCARD (ranking_key (mode b)), ZREVRANGE (ranking_key (mode b)) 0 9,
                         ZSCORE (ranking_key (mode b)) str}"
  using assms
  by (auto simp add: verify_saved_def upstashCommand_def await_def return_def Let_def split: prod.splits)

lemma insort_not_Nil [simp]: "insort x xs \<noteq> []"
  by (cases xs) auto

lemma zset_at_put [simp]: "zset_at (put_zset k xs s) k = Inr xs"
  by (simp add: zset_at_def put_zset_def)

lemma zset_at_upd_other [simp]: "k' \<noteq> k \<Longrightarrow> zset_at (s(k' := v)) k = zset_at s k"
  by (simp add: zset_at_def)

lemma save_score_trace:
  fixes b today
  defines "key \<equiv> ranking_key (mode b)"
  defines "m \<equiv> JSON_stringify (scoreData b today)"
  assumes xs: "zset_at (db w) key = Inr xs"
  defines "ys \<equiv> take 50 (insort (efficiency b, m) (filter (\<lambda>x. snd x \<noteq> m) xs))"
  shows "\<exists>vs. save_score rt today b w =
           (Inr (Updated (case index_of m (map snd (rev ys)) of
                            None \<Rightarrow> JNum 51 | Some i \<Rightarrow> JNum (int i + 1))),
            \<lparr>db = (db w)(player_key (mode b) (name b) \<mapsto> RString m, key \<mapsto> RZSet ys),
             sent = sent w @ ZADD key (efficiency b) m
                      # SET (player_key (mode b) (name b)) m
                      # ZCARD key
                      # (if 50 < length (insort (efficiency b, m) (filter (\<lambda>x. snd x \<noteq> m) xs))
                         then [ZREMRANGEBYRANK key 50 (- 1)] else [])
                      @ ZREVRANK key m # vs\<rparr>)
          \<and> set vs \<subseteq> {ZCARD key, ZREVRANGE key 0 9, ZSCORE key m}"
proof -
  define pk where "pk = player_key (mode b) (name b)"
  define ys0 where "ys0 = insort (efficiency b, m) (filter (\<lambda>x. snd x \<noteq> m) xs)"
  have ne: "ys0 \<noteq> []" by (simp add: ys0_def)
  have pk: "pk \<noteq> key" "key \<noteq> pk" by (simp_all add: pk_def key_def)
  define w1 where "w1 = \<lparr>db = put_zset key ys0 (db w), sent = sent w @ [ZADD key (efficiency b) m]\<rparr>"
  have s1: "add_score key (efficiency b) m w = (Inr (), w1)"
    using xs by (simp add: add_score_def upstashCommand_def return_def w1_def ys0_def)
  define w2 where "w2 = \<lparr>db = (db w1)(pk \<mapsto> RString m), sent = sent w1 @ [SET pk m]\<rparr>"
  have s2: "upstashCommand (SET pk m) w1 = (Inr (JStr ''OK''), w2)"
    by (simp add: upstashCommand_def w2_def)
  have z2: "zset_at (db w2) key = Inr ys0"
    using pk by (simp add: w2_def w1_def)
  have ys: "ys = take 50 ys0"
    by (simp add: ys_def ys0_def)
  define w3 where "w3 = \<lparr>db = db w2, sent = sent w2 @ [ZCARD key]\<rparr>"
  define w4 where "w4 = (if 50 < length ys0
      then \<lparr>db = put_zset key ys (db w3), sent = sent w3 @ [ZREMRANGEBYRANK key 50 (- 1)]\<rparr> else w3)"
  have cond: "(truthy (JNum (int (length ys0))) \<and> js_gt rt (JNum (int (length ys0))) 50) = (50 < length ys0)"
    by (auto simp add: js_gt_def ToNumber_def)
  have s4: "trim_to_top_50 rt key w2 = (Inr (), w4)"
  proof (cases "50 < length ys0")
    case True
    then show ?thesis
      using z2 unfolding trim_to_top_50_def
      by (simp add: await_def upstashCommand_def cond w4_def w3_def return_def rank_range_trim ys
          del: truthy.simps)
  next
    case False
    then show ?thesis
      using z2 unfolding trim_to_top_50_def
      by (simp add: await_def upstashCommand_def cond w4_def w3_def return_def del: truthy.simps)
  qed
  have ysne: "ys \<noteq> []" using ne by (simp add: ys)
  have z4: "zset_at (db w4) key = Inr ys"
    using z2 by (simp add: w4_def w3_def ys)
  have db4: "db w4 = (db w)(pk \<mapsto> RString m, key \<mapsto> RZSet ys)"
    using pk ne ysne by (auto simp add: w4_def w3_def w2_def w1_def put_zset_def ys fun_eq_iff)
  define r where "r = (case index_of m (map snd (rev ys)) of None \<Rightarrow> JNull | Some i \<Rightarrow> JNum (int i))"
  define w5 where "w5 = \<lparr>db = db w4, sent = sent w4 @ [ZREVRANK key m]\<rparr>"
  have s5: "upstashCommand (ZREVRANK key m) w4 = (Inr r, w5)"
    using z4 by (simp add: upstashCommand_def w5_def r_def)
  have rank: "(if r \<noteq> JNull then js_add1 r else JNum 51) =
     (case index_of m (map snd (rev ys)) of None \<Rightarrow> JNum 51 | Some i \<Rightarrow> JNum (int i + 1))"
    by (simp add: r_def js_add1_def split: option.splits)
  have z5: "zset_at (db w5) (ranking_key (mode b)) = Inr ys"
    using z4 by (simp add: w5_def key_def)
  from verify_saved_ok [OF z5, of rt m] obtain vs where
    s6: "verify_saved rt b m w5 = (Inr (), \<lparr>db = db w5, sent = sent w5 @ vs\<rparr>)" and
    vs: "set vs \<subseteq> {ZCARD key, ZREVRANGE key 0 9, ZSCORE key m}"
    unfolding key_def by blast
  note a1 = await_Inr [of "add_score key (efficiency b) m" w "()" w1, OF s1]
  note a2 = await_Inr [of "upstashCommand (SET pk m)" w1 _ w2, OF s2]
  note a4 = await_Inr [of "trim_to_top_50 rt key" w2 "()" w4, OF s4]
  note a5 = await_Inr [of "upstashCommand (ZREVRANK key m)" w4 _ w5, OF s5]
  note a6 = await_Inr [of "verify_saved rt b m" w5 "()", OF s6]
  have run: "save_score rt today b w =
      (Inr (Updated (if r \<noteq> JNull then js_add1 r else JNum 51)), \<lparr>db = db w5, sent = sent w5 @ vs\<rparr>)"
    unfolding save_score_def Let_def
    unfolding key_def [symmetric] m_def [symmetric] pk_def [symmetric]
    by (simp only: a1 a2 a4 a5 a6 return_def)
  have sent: "sent w5 @ vs = sent w @ ZADD key (efficiency b) m # SET pk m # ZCARD key
      # (if 50 < length ys0 then [ZREMRANGEBYRANK key 50 (- 1)] else []) @ ZREVRANK key m # vs"
    by (simp add: w5_def w4_def w3_def w2_def w1_def)
  have "save_score rt today b w =
           (Inr (Updated (case index_of m (map snd (rev ys)) of
                            None \<Rightarrow> JNum 51 | Some i \<Rightarrow> JNum (int i + 1))),
            \<lparr>db = (db w)(player_key (mode b) (name b) \<mapsto> RString m, key \<mapsto> RZSet ys),
             sent = sent w @ ZADD key (efficiency b) m
                      # SET (player_key (mode b) (name b)) m
                      # ZCARD key
                      # (if 50 < length (insort (efficiency b, m) (filter (\<lambda>x. snd x \<noteq> m) xs))
                         then [ZREMRANGEBYRANK key 50 (- 1)] else [])
                      @ ZREVRANK key m # vs\<rparr>)"
    using run sent unfolding ys0_def [symmetric] by (simp add: rank db4 w5_def pk_def)
  with vs show ?thesis by blast
qed

lemma save_score_ok:
  fixes b today
  defines "key \<equiv> ranking_key (mode b)"
  defines "m \<equiv> JSON_stringify (scoreData b today)"
  assumes xs: "zset_at (db w) key = Inr xs"
  defines "ys \<equiv> take 50 (insort (efficiency b, m) (filter (\<lambda>x. snd x \<noteq> m) xs))"
  shows "\<exists>cs. save_score rt today b w =
           (Inr (Updated (case index_of m (map snd (rev ys)) of
                            None \<Rightarrow> JNum 51 | Some i \<Rightarrow> JNum (int i + 1))),
            \<lparr>db = (db w)(player_key (mode b) (name b) \<mapsto> RString m, key \<mapsto> RZSet ys),
             sent = sent w @ cs\<rparr>)
          \<and> (\<forall>k v. ZREM k v \<notin> set cs)"
proof -
  let ?trim = "if 50 < length (insort (efficiency b, m) (filter (\<lambda>x. snd x \<noteq> m) xs))
               then [ZREMRANGEBYRANK key 50 (- 1)] else []"
  from save_score_trace [OF xs [unfolded key_def], of rt today] obtain vs where
    run: "save_score rt today b w =
           (Inr (Updated (case index_of m (map snd (rev ys)) of
                            None \<Rightarrow> JNum 51 | Some i \<Rightarrow> JNum (int i + 1))),
            \<lparr>db = (db w)(player_key (mode b) (name b) \<mapsto> RString m, key \<mapsto> RZSet ys),
             sent = sent w @ ZADD key (efficiency b) m
                      # SET (player_key (mode b) (name b)) m
                      # ZCARD key # ?trim @ ZREVRANK key m # vs\<rparr>)"
    and vs: "set vs \<subseteq> {ZCARD key, ZREVRANGE key 0 9, ZSCORE key m}"
    unfolding key_def m_def ys_def by blast
  let ?cs = "ZADD key (efficiency b) m # SET (player_key (mode b) (name b)) m
               # ZCARD key # ?trim @ ZREVRANK key m # vs"
  have "\<forall>k v. ZREM k v \<notin> set ?cs" using vs by auto
  with run show ?thesis by blast
qed

subsection \<open>Numbers written and read back\<close>

lemma digit_val_char_of: "d < 10 \<Longrightarrow> digit_val (char_of (48 + d)) = d"
  by (simp add: digit_val_def)

lemma show_nat_digits: "c \<in> set (show_nat n) \<Longrightarrow> digit_val c < 10"
proof (induction n rule: show_nat.induct)
  case (1 n)
  then show ?case
    by (cases "n < 10") (auto simp add: show_nat.simps [of n] digit_val_char_of)
qed

lemma show_nat_value: "foldl (\<lambda>a c. a * 10 + digit_val c) 0 (show_nat n) = n"
proof (induction n rule: show_nat.induct)
  case (1 n)
  then show ?case
    by (cases "n < 10") (simp_all add: show_nat.simps [of n] digit_val_char_of)
qed

lemma show_nat_not_Nil [simp]: "show_nat n \<noteq> []"
  by (subst show_nat.simps) simp

lemma digit_not_space: "digit_val c < 10 \<Longrightarrow> \<not> is_space c"
  by (auto simp add: is_space_def digit_val_def)

lemma digit_not_sign:
  "digit_val c < 10 \<Longrightarrow> c \<noteq> CHR ''-'' \<and> c \<noteq> CHR ''+'' \<and> c \<noteq> CHR ''x'' \<and> c \<noteq> CHR ''X''"
  by (auto simp add: digit_val_def)

lemma no_hex_prefix:
  assumes "\<forall>c \<in> set ds. digit_val c < 10"
  shows "take 2 ds \<noteq> ''0x'' \<and> take 2 ds \<noteq> ''0X''"
proof (cases ds)
  case Nil
  then show ?thesis by simp
next
  case (Cons c cs)
  show ?thesis
  proof (cases cs)
    case Nil
    with Cons show ?thesis by simp
  next
    case (Cons d es)
    with \<open>ds = c # cs\<close> assms have "digit_val d < 10" by simp
    with Cons \<open>ds = c # cs\<close> show ?thesis using digit_not_sign [of d] by auto
  qed
qed

lemma parseInt_digits:
  assumes "ds \<noteq> []" and "\<forall>c \<in> set ds. digit_val c < 10"
  shows "parseInt ds = Some (int (foldl (\<lambda>a c. a * 10 + digit_val c) 0 ds))"
proof -
  obtain c cs where ds: "ds = c # cs" using assms(1) by (cases ds) auto
  have c: "digit_val c < 10" using assms(2) ds by simp
  have drop: "dropWhile is_space ds = ds" using ds digit_not_space [OF c] by simp
  have tw: "takeWhile (\<lambda>c. digit_val c < 10) ds = ds"
    using assms(2) by (simp add: takeWhile_eq_all_conv)
  have sign: "take 1 ds \<noteq> ''-''" "take 1 ds \<noteq> ''+''"
    using digit_not_sign [OF c] by (simp_all add: ds)
  show ?thesis
    using no_hex_prefix [OF assms(2)] sign assms(1)
    by (simp add: parseInt_def drop Let_def tw)
qed

lemma parseInt_minus_digits:
  assumes "ds \<noteq> []" and "\<forall>c \<in> set ds. digit_val c < 10"
  shows "parseInt (CHR ''-'' # ds) = Some (- int (foldl (\<lambda>a c. a * 10 + digit_val c) 0 ds))"
proof -
  have tw: "takeWhile (\<lambda>c. digit_val c < 10) ds = ds"
    using assms(2) by (simp add: takeWhile_eq_all_conv)
  have sp: "\<not> is_space CHR ''-''" by (simp add: is_space_def)
  show ?thesis
    using no_hex_prefix [OF assms(2)] assms(1)
    by (simp add: parseInt_def sp Let_def tw)
qed

lemma parseInt_show_int [simp]: "parseInt (show_int n) = Some n"
proof (cases "n < 0")
  case True
  then show ?thesis
    using parseInt_minus_digits [of "show_nat (nat (- n))"] show_nat_digits
    by (simp add: show_int_def show_nat_value)
next
  case False
  then show ?thesis
    using parseInt_digits [of "show_nat (nat n)"] show_nat_digits
    by (simp add: show_int_def show_nat_value)
qed

subsection \<open>The loop over a reply\<close>

lemma parseInt_Number_toString:
  "\<bar>n\<bar> < 1000000000000000000000 \<Longrightarrow> parseInt (Number_toString n) = Some n"
  by (simp add: Number_toString_def)

lemma parse_entry_efficiency [simp]:
  "entry_efficiency (parse_entry rt dataStr efficiencyStr) = parseInt (ToString efficiencyStr)"
  by (simp add: parse_entry_def Let_def split: option.splits json.splits)

lemma parse_rankings_length: "length (parse_rankings rt scores) = length scores div 2"
  by (induction rt scores rule: parse_rankings.induct) simp_all

lemma parse_rankings_nth:
  "i < length scores div 2 \<Longrightarrow>
   parse_rankings rt scores ! i = parse_entry rt (scores ! (2 * i)) (scores ! (2 * i + 1))"
proof (induction rt scores arbitrary: i rule: parse_rankings.induct)
  case (1 rt dataStr efficiencyStr scores)
  then show ?case by (cases i) simp_all
qed simp_all

lemma parse_rankings_odd:
  "odd (length scores) \<Longrightarrow> parse_rankings rt scores = parse_rankings rt (butlast scores)"
proof (induction rt scores rule: parse_rankings.induct)
  case (1 rt dataStr efficiencyStr scores)
  then show ?case by (cases scores) simp_all
qed simp_all

lemma parse_rankings_with_scores:
  "\<forall>p \<in> set ps. \<bar>fst p\<bar> < 1000000000000000000000 \<Longrightarrow>
   map entry_efficiency
     (parse_rankings rt (concat (map (\<lambda>(sc, m). [JStr m, JStr (Number_toString sc)]) ps)))
   = map (\<lambda>p. Some (fst p)) ps"
  by (induction ps) (auto simp add: parseInt_Number_toString)

lemma concat_pairs_Nil [simp]:
  "(concat (map (\<lambda>(sc, m). [JStr m, JStr (Number_toString sc)]) ps) = []) = (ps = [])"
  by (cases ps) auto

lemma sorted_fst: "sorted (xs :: (int \<times> string) list) \<Longrightarrow> sorted (map fst xs)"
  by (induction xs) (auto simp add: less_eq_prod_def)

lemma sorted_wrt_ge_rev: "sorted (xs :: int list) \<Longrightarrow> sorted_wrt (\<ge>) (rev xs)"
  by (simp add: sorted_wrt_rev) 

lemma fetch_result:
  assumes "fetch rt m w = (Inr rankings, w')"
  shows "\<exists>xs. zset_at (db w) (ranking_key (if m = [] then ''flick'' else m)) = Inr xs \<and>
           rankings = parse_rankings rt
             (concat (map (\<lambda>(sc, m). [JStr m, JStr (Number_toString sc)]) (take 50 (rev xs)))) \<and>
           db w' = db w"
proof -
  define key where "key = ranking_key (if m = [] then ''flick'' else m)"
  show ?thesis
  proof (cases "zset_at (db w) key")
    case (Inl e)
    then show ?thesis
      using assms by (simp add: fetch_def key_def [symmetric] await_def upstashCommand_def)
  next
    case (Inr xs)
    have rr: "rank_range 0 49 (length xs) = (0, min 50 (length xs))"
      using rank_range_top [of 49 "length xs"] by simp
    have rr': "rank_range 0 (- 1) (length xs) = (0, length xs)" by (rule rank_range_all)
    show ?thesis
    proof (cases "xs = []")
      case True
      with Inr assms show ?thesis
        by (auto simp add: fetch_def key_def [symmetric] await_def upstashCommand_def rr
            with_scores_def result_array_def return_def Let_def rank_range_def
            split: if_splits)
    next
      case False
      define raw where
        "raw = concat (map (\<lambda>(sc, m). [JStr m, JStr (Number_toString sc)]) (take 50 (rev xs)))"
      have "take 50 (rev xs) \<noteq> []" using False by simp
      then have ne: "raw \<noteq> []" unfolding raw_def by (simp only: concat_pairs_Nil not_False_eq_True)
      have s1: "upstashCommand (ZREVRANGE key 0 49) w =
          (Inr (JArr raw), \<lparr>db = db w, sent = sent w @ [ZREVRANGE key 0 49]\<rparr>)"
        using Inr by (simp add: upstashCommand_def rr with_scores_def raw_def min_def)
      have "fetch rt m w = (Inr (parse_rankings rt raw),
          \<lparr>db = db w, sent = sent w @ [ZREVRANGE key 0 49]\<rparr>)"
        unfolding fetch_def key_def [symmetric] Let_def
        using ne
        by (simp add: await_def s1 result_array_def return_def)
      with assms Inr show ?thesis
        by (auto simp add: raw_def key_def)
    qed
  qed
qed

lemma fetch_answer:
  assumes "zset_at (db w) (ranking_key (if m = [] then ''flick'' else m)) = Inr xs"
  shows "fst (fetch rt m w) =
    Inr (parse_rankings rt
           (concat (map (\<lambda>(sc, m). [JStr m, JStr (Number_toString sc)]) (take 50 (rev xs)))))"
proof -
  define key where "key = ranking_key (if m = [] then ''flick'' else m)"
  have xs: "zset_at (db w) key = Inr xs" using assms by (simp add: key_def)
  have rr: "rank_range 0 49 (length xs) = (0, min 50 (length xs))"
    using rank_range_top [of 49 "length xs"] by simp
  show ?thesis
  proof (cases "xs = []")
    case True
    with xs show ?thesis
      by (auto simp add: fetch_def key_def [symmetric] await_def upstashCommand_def rr
          with_scores_def result_array_def return_def Let_def rank_range_def zset_at_def
          split: option.splits rvalue.splits)
  next
    case False
    define raw where
      "raw = concat (map (\<lambda>(sc, m). [JStr m, JStr (Number_toString sc)]) (take 50 (rev xs)))"
    have "take 50 (rev xs) \<noteq> []" using False by simp
    then have ne: "raw \<noteq> []" unfolding raw_def by (simp only: concat_pairs_Nil not_False_eq_True)
    have s1: "upstashCommand (ZREVRANGE key 0 49) w =
        (Inr (JArr raw), \<lparr>db = db w, sent = sent w @ [ZREVRANGE key 0 49]\<rparr>)"
      using xs by (simp add: upstashCommand_def rr with_scores_def raw_def min_def)
    have "fetch rt m w = (Inr (parse_rankings rt raw),
        \<lparr>db = db w, sent = sent w @ [ZREVRANGE key 0 49]\<rparr>)"
      unfolding fetch_def key_def [symmetric] Let_def
      using ne
      by (simp add: await_def s1 result_array_def return_def)
    then show ?thesis by (simp add: raw_def)
  qed
qed

subsection \<open>The reset\<close>

lemma reset_loop_result:
  "distinct ms \<Longrightarrow>
   \<exists>cs. reset_loop ms acc w =
     (Inr (acc @ filter (\<lambda>k. db w k \<noteq> None) (map ranking_key ms)),
      \<lparr>db = (\<lambda>k. if k \<in> set (map ranking_key ms) then None else db w k), sent = sent w @ cs\<rparr>)"
proof (induction ms arbitrary: acc w)
  case Nil
  then show ?case by (auto simp add: return_def intro!: exI [of _ "[]"])
next
  case (Cons m ms)
  define key where "key = ranking_key m"
  have notin: "key \<notin> set (map ranking_key ms)" using Cons.prems by (auto simp add: key_def)
  show ?case
  proof (cases "db w key = None")
    case True
    define w1 where "w1 = \<lparr>db = db w, sent = sent w @ [EXISTS key]\<rparr>"
    from Cons.IH [of acc w1] Cons.prems obtain cs where
      "reset_loop ms acc w1 =
        (Inr (acc @ filter (\<lambda>k. db w1 k \<noteq> None) (map ranking_key ms)),
         \<lparr>db = (\<lambda>k. if k \<in> set (map ranking_key ms) then None else db w1 k),
          sent = sent w1 @ cs\<rparr>)"
      by auto
    with True show ?thesis
      by (auto simp add: key_def [symmetric] await_def upstashCommand_def w1_def fun_eq_iff
          intro!: exI [of _ "EXISTS key # cs"])
  next
    case False
    define w1 where "w1 = \<lparr>db = (db w)(key := None), sent = sent w @ [EXISTS key, DEL key]\<rparr>"
    from Cons.IH [of "acc @ [key]" w1] Cons.prems obtain cs where
      "reset_loop ms (acc @ [key]) w1 =
        (Inr ((acc @ [key]) @ filter (\<lambda>k. db w1 k \<noteq> None) (map ranking_key ms)),
         \<lparr>db = (\<lambda>k. if k \<in> set (map ranking_key ms) then None else db w1 k),
          sent = sent w1 @ cs\<rparr>)"
      by auto
    moreover have "filter (\<lambda>k. db w1 k \<noteq> None) (map ranking_key ms)
        = filter (\<lambda>k. db w k \<noteq> None) (map ranking_key ms)"
      using notin by (intro filter_cong) (auto simp add: w1_def)
    ultimately show ?thesis
      using False
      by (auto simp add: key_def [symmetric] await_def upstashCommand_def w1_def fun_eq_iff
          intro!: exI [of _ "EXISTS key # DEL key # cs"])
  qed
qed

lemma player_key_not_ranking: "player_key m n \<notin> set (map ranking_key ms)"
  by auto

subsection \<open>The paths of a submission\<close>

lemma stringify_scoreData_not_Nil [simp]: "JSON_stringify (scoreData b today) \<noteq> []"
  by (simp add: scoreData_def)

lemma submit_rejects:
  assumes "db w (player_key (mode b) (name b)) = Some (RString s)"
    and "s \<noteq> []"
    and "JSON_parse rt s = Some existing"
    and "js_get existing ''efficiency'' = Some (JNum E)"
    and "efficiency b \<le> E"
  shows "submit rt today b w =
    (Inr NotUpdated, \<lparr>db = db w, sent = sent w @ [GET (player_key (mode b) (name b))]\<rparr>)"
proof -
  from assms(4) have "truthy existing" by (cases existing) simp_all
  with assms show ?thesis
    by (simp add: submit_def await_def upstashCommand_def read_existing_def js_le_def
        ToNumber_def return_def)
qed

lemma submit_no_prior:
  assumes "db w (player_key (mode b) (name b)) = Some (RString s)"
    and "JSON_parse rt s = None \<or> (\<exists>v. JSON_parse rt s = Some v \<and> js_get v ''efficiency'' = None)"
  shows "submit rt today b w =
    save_score rt today b \<lparr>db = db w, sent = sent w @ [GET (player_key (mode b) (name b))]\<rparr>"
  using assms
  by (auto simp add: submit_def await_def upstashCommand_def read_existing_def Let_def)

lemma submit_absent:
  assumes "db w (player_key (mode b) (name b)) = None"
  shows "submit rt today b w =
    save_score rt today b \<lparr>db = db w, sent = sent w @ [GET (player_key (mode b) (name b))]\<rparr>"
  using assms
  by (auto simp add: submit_def await_def upstashCommand_def read_existing_def Let_def)

lemma save_score_wrongtype:
  assumes "zset_at (db w) (ranking_key (mode b)) = Inl e"
  shows "fst (save_score rt today b w) = Inl Failed_to_add_score"
  using assms
  by (simp add: save_score_def Let_def await_def add_score_def upstashCommand_def throw_def)

lemma submit_paths:
  assumes "submit rt today b w = (Inr resp, w')"
  shows "(resp = NotUpdated \<and> db w' = db w) \<or>
         (\<exists>w0. save_score rt today b w0 = (Inr resp, w') \<and>
            (db w0 = db w \<or>
             (\<exists>xs old. zset_at (db w) (ranking_key (mode b)) = Inr xs \<and>
                db w0 = put_zset (ranking_key (mode b)) (filter (\<lambda>x. snd x \<noteq> old) xs) (db w))))"
proof -
  define pk where "pk = player_key (mode b) (name b)"
  define key where "key = ranking_key (mode b)"
  define w1 where "w1 = \<lparr>db = db w, sent = sent w @ [GET pk]\<rparr>"
  have w1: "db w1 = db w" by (simp add: w1_def)
  show ?thesis
  proof (cases "db w pk")
    case None
    then have "submit rt today b w = save_score rt today b w1"
      unfolding pk_def w1_def by (rule submit_absent)
    with assms w1 show ?thesis by auto
  next
    case (Some val)
    show ?thesis
    proof (cases val)
      case (RZSet xs)
      with Some assms show ?thesis
        by (simp add: submit_def pk_def [symmetric] await_def upstashCommand_def)
    next
      case (RString s)
      have get: "upstashCommand (GET pk) w = (Inr (JStr s), w1)"
        using Some RString by (simp add: upstashCommand_def w1_def)
      show ?thesis
      proof (cases "read_existing rt (JStr s)")
        case None
        then have "submit rt today b w = save_score rt today b w1"
          by (simp add: submit_def pk_def [symmetric] await_def get)
        with assms w1 show ?thesis by auto
      next
        case (Some existing)
        note ex = this
        show ?thesis
        proof (cases "truthy existing \<and> js_get existing ''efficiency'' \<noteq> None")
          case False
          then have "submit rt today b w = save_score rt today b w1"
            by (auto simp add: submit_def pk_def [symmetric] await_def get ex)
          with assms w1 show ?thesis by auto
        next
          case True
          then obtain e where e: "js_get existing ''efficiency'' = Some e" and t: "truthy existing"
            by auto
          show ?thesis
          proof (cases "js_le rt (efficiency b) e")
            case True
            then have "submit rt today b w = (Inr NotUpdated, w1)"
              by (simp add: submit_def pk_def [symmetric] await_def get ex e t return_def)
            with assms w1 show ?thesis by auto
          next
            case False
            define old where "old = JSON_stringify existing"
            have sub: "submit rt today b w =
                await (upstashCommand (ZREM key old)) (\<lambda>removed. save_score rt today b) w1"
              using False
              by (simp add: submit_def pk_def [symmetric] key_def [symmetric] await_def get ex e t
                  old_def)
            show ?thesis
            proof (cases "zset_at (db w) key")
              case (Inl err)
              then show ?thesis
                using assms by (simp add: sub await_def upstashCommand_def w1)
            next
              case (Inr xs)
              define w0 where "w0 = \<lparr>db = put_zset key (filter (\<lambda>x. snd x \<noteq> old) xs) (db w),
                                     sent = sent w1 @ [ZREM key old]\<rparr>"
              have "submit rt today b w = save_score rt today b w0"
                using Inr by (simp add: sub await_def upstashCommand_def w1 w0_def)
              with assms Inr show ?thesis
                unfolding key_def [symmetric]
                by (intro disjI2 exI [of _ w0]) (auto simp add: w0_def)
            qed
          qed
        qed
      qed
    qed
  qed
qed

lemma submit_accepted:
  fixes b today
  defines "key \<equiv> ranking_key (mode b)"
  defines "m \<equiv> JSON_stringify (scoreData b today)"
  assumes "submit rt today b w = (Inr (Updated r), w')"
  shows "\<exists>xs old ys. zset_at (db w) key = Inr xs \<and>
           ys = take 50 (insort (efficiency b, m)
                  (filter (\<lambda>x. snd x \<noteq> m) (filter (\<lambda>x. snd x \<noteq> old) xs))) \<and>
           db w' = (db w)(player_key (mode b) (name b) \<mapsto> RString m, key \<mapsto> RZSet ys) \<and>
           r = (case index_of m (map snd (rev ys)) of
                  None \<Rightarrow> JNum 51 | Some i \<Rightarrow> JNum (int i + 1))"
    (is "\<exists>xs old ys. ?P xs old ys")
proof -
  from submit_paths [OF assms(3)] obtain w0 where
    run: "save_score rt today b w0 = (Inr (Updated r), w')" and
    w0: "db w0 = db w \<or> (\<exists>xs old. zset_at (db w) key = Inr xs \<and>
                db w0 = put_zset key (filter (\<lambda>x. snd x \<noteq> old) xs) (db w))"
    unfolding key_def by auto
  obtain xs0 where xs0: "zset_at (db w0) key = Inr xs0"
    using save_score_wrongtype [of w0 b _ rt today] run unfolding key_def
    by (cases "zset_at (db w0) (ranking_key (mode b))") auto
  from save_score_ok [OF xs0 [unfolded key_def], of rt today] run
  have res: "db w' = (db w0)(player_key (mode b) (name b) \<mapsto> RString m,
                 key \<mapsto> RZSet (take 50 (insort (efficiency b, m) (filter (\<lambda>x. snd x \<noteq> m) xs0))))"
    and r: "r = (case index_of m (map snd (rev (take 50 (insort (efficiency b, m)
                  (filter (\<lambda>x. snd x \<noteq> m) xs0))))) of
                  None \<Rightarrow> JNum 51 | Some i \<Rightarrow> JNum (int i + 1))"
    unfolding key_def m_def by auto
  from w0 show ?thesis
  proof
    assume same: "db w0 = db w"
    have "filter (\<lambda>x. snd x \<noteq> m) (filter (\<lambda>x. snd x \<noteq> m) xs0) = filter (\<lambda>x. snd x \<noteq> m) xs0"
      by simp
    then have "?P xs0 m (take 50 (insort (efficiency b, m) (filter (\<lambda>x. snd x \<noteq> m) xs0)))"
      using xs0 res r same by simp
    then show ?thesis by blast
  next
    assume "\<exists>xs old. zset_at (db w) key = Inr xs \<and>
                db w0 = put_zset key (filter (\<lambda>x. snd x \<noteq> old) xs) (db w)"
    then obtain xs old where xs: "zset_at (db w) key = Inr xs" and
      d: "db w0 = put_zset key (filter (\<lambda>x. snd x \<noteq> old) xs) (db w)" by blast
    have "xs0 = filter (\<lambda>x. snd x \<noteq> old) xs" using xs0 d by simp
    moreover have "(db w0)(player_key (mode b) (name b) \<mapsto> RString m, key \<mapsto> RZSet ys)
        = (db w)(player_key (mode b) (name b) \<mapsto> RString m, key \<mapsto> RZSet ys)" for ys
      by (auto simp add: d put_zset_def fun_eq_iff)
    ultimately have "?P xs old (take 50 (insort (efficiency b, m)
        (filter (\<lambda>x. snd x \<noteq> m) (filter (\<lambda>x. snd x \<noteq> old) xs))))"
      using xs res r by simp
    then show ?thesis by blast
  qed
qed

lemma zcard_upd_other [simp]: "k' \<noteq> k \<Longrightarrow> zcard (s(k' := v)) k = zcard s k"
  by (simp add: zcard_def)

lemma zcard_upd_same [simp]: "zcard (s(k \<mapsto> RZSet xs)) k = length xs"
  by (simp add: zcard_def)

lemma submit_accepted_card:
  assumes "submit rt today b w = (Inr (Updated r), w')"
  shows "zcard (db w') (ranking_key (mode b)) \<le> 50"
  using submit_accepted [OF assms] by auto

lemma save_score_Updated:
  assumes "save_score rt today b w = (Inr resp, w')"
  shows "\<exists>r. resp = Updated r"
proof (cases "zset_at (db w) (ranking_key (mode b))")
  case (Inl e)
  from save_score_wrongtype [OF this, of rt today] assms show ?thesis by simp
next
  case (Inr xs)
  from save_score_ok [OF this, of rt today] assms show ?thesis by auto
qed

lemma submit_NotUpdated:
  assumes "submit rt today b w = (Inr NotUpdated, w')"
  shows "db w' = db w"
  using submit_paths [OF assms] save_score_Updated by fastforce

lemma submit_frame_rankings:
  assumes "submit rt today b w = (Inr resp, w')" and "m \<noteq> mode b"
  shows "zcard (db w') (ranking_key m) = zcard (db w) (ranking_key m)"
proof (cases resp)
  case NotUpdated
  with submit_NotUpdated assms(1) show ?thesis by simp
next
  case (Updated r)
  with submit_accepted [of rt today b w r w'] assms show ?thesis by auto
qed

subsection \<open>Ranks in an ordered set\<close>

lemma index_of_None [simp]: "(index_of x xs = None) = (x \<notin> set xs)"
  by (induction xs) auto

lemma index_of_append_in: "x \<in> set xs \<Longrightarrow> index_of x (xs @ ys) = index_of x xs"
  by (induction xs) auto

lemma index_of_append_last: "x \<notin> set xs \<Longrightarrow> index_of x (xs @ [x]) = Some (length xs)"
  by (induction xs) auto

lemma revrank_sorted:
  assumes "sorted ys" and "distinct (map snd ys)" and "(sc, m) \<in> set ys"
  shows "index_of m (map snd (rev ys)) = Some (length (filter (\<lambda>x. (sc, m) < x) ys))"
  using assms
proof (induction ys)
  case Nil
  then show ?case by simp
next
  case (Cons y ys)
  show ?case
  proof (cases "m \<in> snd ` set ys")
    case True
    then have "snd y \<noteq> m" using Cons.prems(2) by auto
    then have in_ys: "(sc, m) \<in> set ys" using Cons.prems(3) by auto
    then have "y \<le> (sc, m)" using Cons.prems(1) by auto
    then have "\<not> (sc, m) < y" by simp
    moreover have "index_of m (map snd (rev ys)) = Some (length (filter (\<lambda>x. (sc, m) < x) ys))"
      using Cons.IH Cons.prems in_ys by simp
    ultimately show ?thesis using True by (simp add: index_of_append_in)
  next
    case False
    then have y: "y = (sc, m)" using Cons.prems(3) by force
    have "\<forall>x \<in> set ys. (sc, m) < x"
    proof
      fix x assume x: "x \<in> set ys"
      then have "y \<le> x" using Cons.prems(1) by auto
      moreover have "x \<noteq> y" using False x y by force
      ultimately show "(sc, m) < x" using y by simp
    qed
    then have "filter (\<lambda>x. (sc, m) < x) ys = ys" by simp
    then show ?thesis using False y by (simp add: index_of_append_last)
  qed
qed

lemma sorted_take_filter:
  "sorted xs \<Longrightarrow> sorted (take n (insort x (filter P xs)))"
  by (intro sorted_wrt_take) (simp add: sorted_insort sorted_wrt_filter)

lemma distinct_snd_insort:
  "distinct (map snd (insort x xs)) = (snd x \<notin> snd ` set xs \<and> distinct (map snd xs))"
  by (induction xs) (auto simp add: set_insort_key)

lemma distinct_members:
  assumes "distinct (map snd xs)"
  shows "distinct (map snd (take n (insort (sc, m) (filter (\<lambda>x. snd x \<noteq> m) (filter P xs)))))"
proof -
  let ?zs = "filter (\<lambda>x. snd x \<noteq> m) (filter P xs)"
  have "distinct (map snd ?zs)" using assms by (intro distinct_map_filter)
  moreover have "m \<notin> snd ` set ?zs" by auto
  ultimately have "distinct (map snd (insort (sc, m) ?zs))"
    by (simp only: distinct_snd_insort snd_conv) simp
  then have "distinct (take n (map snd (insort (sc, m) ?zs)))" by (rule distinct_take)
  then show ?thesis by (simp only: take_map)
qed

lemma member_efficiency:
  assumes "(sc, m) \<in> set (take n (insort (e, m) (filter (\<lambda>x. snd x \<noteq> m) xs)))"
  shows "sc = e"
  using assms by (auto dest!: in_set_takeD simp add: set_insort_key)

subsection \<open>Submissions of one player\<close>

lemma submit_first:
  fixes b today
  defines "m \<equiv> JSON_stringify (scoreData b today)"
  assumes "db w (player_key (mode b) (name b)) = None"
    and "zset_at (db w) (ranking_key (mode b)) = Inr xs"
  shows "\<exists>r cs. submit rt today b w =
           (Inr (Updated r),
            \<lparr>db = (db w)(player_key (mode b) (name b) \<mapsto> RString m,
                   ranking_key (mode b) \<mapsto>
                     RZSet (take 50 (insort (efficiency b, m) (filter (\<lambda>x. snd x \<noteq> m) xs)))),
             sent = sent w @ cs\<rparr>)"
proof -
  define w1 where "w1 = \<lparr>db = db w, sent = sent w @ [GET (player_key (mode b) (name b))]\<rparr>"
  have "zset_at (db w1) (ranking_key (mode b)) = Inr xs" using assms(3) by (simp add: w1_def)
  from save_score_ok [OF this, of rt today] obtain cs where
    "save_score rt today b w1 =
      (Inr (Updated (case index_of m (map snd (rev (take 50 (insort (efficiency b, m)
          (filter (\<lambda>x. snd x \<noteq> m) xs))))) of None \<Rightarrow> JNum 51 | Some i \<Rightarrow> JNum (int i + 1))),
       \<lparr>db = (db w1)(player_key (mode b) (name b) \<mapsto> RString m,
              ranking_key (mode b) \<mapsto>
                RZSet (take 50 (insort (efficiency b, m) (filter (\<lambda>x. snd x \<noteq> m) xs)))),
        sent = sent w1 @ cs\<rparr>)"
    unfolding m_def by blast
  then show ?thesis
    unfolding submit_absent [OF assms(2), of rt today] w1_def [symmetric]
    by (auto simp add: w1_def)
qed

lemma submit_replaces:
  fixes b today
  defines "m \<equiv> JSON_stringify (scoreData b today)"
  assumes "db w (player_key (mode b) (name b)) = Some (RString s)"
    and "s \<noteq> []"
    and "JSON_parse rt s = Some existing"
    and "js_get existing ''efficiency'' = Some (JNum E)"
    and "E < efficiency b"
    and "zset_at (db w) (ranking_key (mode b)) = Inr xs"
  shows "\<exists>r cs ys. submit rt today b w =
           (Inr (Updated r),
            \<lparr>db = (db w)(player_key (mode b) (name b) \<mapsto> RString m,
                   ranking_key (mode b) \<mapsto> RZSet ys),
             sent = sent w @ cs\<rparr>)"
proof -
  define key where "key = ranking_key (mode b)"
  define pk where "pk = player_key (mode b) (name b)"
  define old where "old = JSON_stringify existing"
  define w0 where "w0 = \<lparr>db = put_zset key (filter (\<lambda>x. snd x \<noteq> old) xs) (db w),
                         sent = sent w @ [GET pk, ZREM key old]\<rparr>"
  from assms(5) have t: "truthy existing" by (cases existing) simp_all
  have sub: "submit rt today b w = save_score rt today b w0"
    using assms(2-7) t
    by (simp add: submit_def await_def upstashCommand_def read_existing_def js_le_def
        ToNumber_def key_def [symmetric] pk_def [symmetric] old_def [symmetric] w0_def)
  have "zset_at (db w0) (ranking_key (mode b)) = Inr (filter (\<lambda>x. snd x \<noteq> old) xs)"
    by (simp add: w0_def key_def)
  from save_score_ok [OF this, of rt today] obtain r cs ys where
    "save_score rt today b w0 =
      (Inr (Updated r),
       \<lparr>db = (db w0)(pk \<mapsto> RString m, key \<mapsto> RZSet ys), sent = sent w0 @ cs\<rparr>)"
    unfolding m_def key_def pk_def by blast
  moreover have "(db w0)(pk \<mapsto> RString m, key \<mapsto> RZSet ys)
      = (db w)(pk \<mapsto> RString m, key \<mapsto> RZSet ys)"
    by (auto simp add: w0_def put_zset_def fun_eq_iff)
  ultimately have "submit rt today b w =
      (Inr (Updated r),
       \<lparr>db = (db w)(pk \<mapsto> RString m, key \<mapsto> RZSet ys), sent = sent w @ (GET pk # ZREM key old # cs)\<rparr>)"
    by (simp add: sub w0_def)
  then show ?thesis unfolding key_def pk_def by blast
qed

lemma efficiency_of_scoreData [simp]:
  "js_get (scoreData b today) ''efficiency'' = Some (JNum (efficiency b))"
  by (simp add: scoreData_def)

lemma Max_absorb_le:
  fixes a b :: int
  assumes "finite A" and "b \<le> a"
  shows "Max (insert a (insert b A)) = Max (insert a A)"
proof -
  have "a \<le> Max (insert a A)" using assms(1) by (intro Max_ge) auto
  with assms(2) have "b \<le> Max (insert a A)" by simp
  moreover have "Max (insert b (insert a A)) = max b (Max (insert a A))"
    using assms(1) by (intro Max_insert) auto
  ultimately show ?thesis by (simp add: insert_commute max_absorb2)
qed

lemma Max_absorb_gt:
  fixes a b :: int
  assumes "finite A" and "a < b"
  shows "Max (insert a (insert b A)) = Max (insert b A)"
proof -
  have "b \<le> Max (insert b A)" using assms(1) by (intro Max_ge) auto
  with assms(2) have "a \<le> Max (insert b A)" by simp
  moreover have "Max (insert a (insert b A)) = max a (Max (insert b A))"
    using assms(1) by (intro Max_insert) auto
  ultimately show ?thesis by (simp add: max_absorb2)
qed

lemma submit_all_best:
  assumes "\<forall>(today, b) \<in> set reqs. mode b = md \<and> name b = nm \<and>
             JSON_parse rt (JSON_stringify (scoreData b today)) = Some (scoreData b today)"
    and "db w (player_key md nm) = Some (RString (JSON_stringify (scoreData b0 t0)))"
    and "JSON_parse rt (JSON_stringify (scoreData b0 t0)) = Some (scoreData b0 t0)"
    and "zset_at (db w) (ranking_key md) = Inr xs"
  shows "\<exists>rs w' b1 t1.
           submit_all rt reqs w = (rs, w') \<and> (\<forall>r \<in> set rs. \<exists>resp. r = Inr resp) \<and>
           db w' (player_key md nm) = Some (RString (JSON_stringify (scoreData b1 t1))) \<and>
           JSON_parse rt (JSON_stringify (scoreData b1 t1)) = Some (scoreData b1 t1) \<and>
           efficiency b1 = Max (insert (efficiency b0) ((efficiency \<circ> snd) ` set reqs))"
  using assms
proof (induction reqs arbitrary: w b0 t0 xs)
  case Nil
  then show ?case by auto
next
  case (Cons req reqs)
  obtain today b where req: "req = (today, b)" by (cases req)
  have b: "mode b = md" "name b = nm"
    "JSON_parse rt (JSON_stringify (scoreData b today)) = Some (scoreData b today)"
    using Cons.prems(1) req by auto
  have rest: "\<forall>(today, b) \<in> set reqs. mode b = md \<and> name b = nm \<and>
             JSON_parse rt (JSON_stringify (scoreData b today)) = Some (scoreData b today)"
    using Cons.prems(1) by auto
  have fin: "finite ((efficiency \<circ> snd) ` set reqs)" by simp
  show ?case
  proof (cases "efficiency b \<le> efficiency b0")
    case True
    have step: "submit rt today b w =
        (Inr NotUpdated, \<lparr>db = db w, sent = sent w @ [GET (player_key (mode b) (name b))]\<rparr>)"
    proof (rule submit_rejects)
      show "db w (player_key (mode b) (name b)) = Some (RString (JSON_stringify (scoreData b0 t0)))"
        using Cons.prems(2) b(1,2) by simp
      show "JSON_stringify (scoreData b0 t0) \<noteq> []" by simp
      show "JSON_parse rt (JSON_stringify (scoreData b0 t0)) = Some (scoreData b0 t0)"
        by (rule Cons.prems(3))
      show "js_get (scoreData b0 t0) ''efficiency'' = Some (JNum (efficiency b0))" by simp
      show "efficiency b \<le> efficiency b0" by (rule True)
    qed
    define w1 where "w1 = \<lparr>db = db w, sent = sent w @ [GET (player_key (mode b) (name b))]\<rparr>"
    have p1: "db w1 (player_key md nm) = Some (RString (JSON_stringify (scoreData b0 t0)))"
      using Cons.prems(2) by (simp add: w1_def)
    have z1: "zset_at (db w1) (ranking_key md) = Inr xs"
      using Cons.prems(4) by (simp add: w1_def)
    from Cons.IH [OF rest p1 Cons.prems(3) z1] obtain rs w' b1 t1 where
      ih: "submit_all rt reqs w1 = (rs, w')" "\<forall>r \<in> set rs. \<exists>resp. r = Inr resp"
        "db w' (player_key md nm) = Some (RString (JSON_stringify (scoreData b1 t1)))"
        "JSON_parse rt (JSON_stringify (scoreData b1 t1)) = Some (scoreData b1 t1)"
        "efficiency b1 = Max (insert (efficiency b0) ((efficiency \<circ> snd) ` set reqs))"
      by blast
    have "(efficiency \<circ> snd) ` set (req # reqs)
        = insert (efficiency b) ((efficiency \<circ> snd) ` set reqs)"
      by (simp add: req)
    then have mx: "Max (insert (efficiency b0) ((efficiency \<circ> snd) ` set (req # reqs)))
        = Max (insert (efficiency b0) ((efficiency \<circ> snd) ` set reqs))"
      using Max_absorb_le [OF fin True] by (simp only:)
    have run: "submit_all rt (req # reqs) w = (Inr NotUpdated # rs, w')"
      by (simp add: req step w1_def [symmetric] ih(1))
    have "submit_all rt (req # reqs) w = (Inr NotUpdated # rs, w') \<and>
        (\<forall>r \<in> set (Inr NotUpdated # rs). \<exists>resp. r = Inr resp) \<and>
        db w' (player_key md nm) = Some (RString (JSON_stringify (scoreData b1 t1))) \<and>
        JSON_parse rt (JSON_stringify (scoreData b1 t1)) = Some (scoreData b1 t1) \<and>
        efficiency b1 = Max (insert (efficiency b0) ((efficiency \<circ> snd) ` set (req # reqs)))"
      using run ih(2-5) unfolding mx by simp
    then show ?thesis by blast
  next
    case False
    from submit_replaces [of w b "JSON_stringify (scoreData b0 t0)" rt "scoreData b0 t0"
        "efficiency b0" xs today] Cons.prems(2-4) False b(1,2)
    obtain r cs ys where step: "submit rt today b w =
        (Inr (Updated r),
         \<lparr>db = (db w)(player_key md nm \<mapsto> RString (JSON_stringify (scoreData b today)),
                ranking_key md \<mapsto> RZSet ys),
          sent = sent w @ cs\<rparr>)"
      by auto
    define w1 where "w1 = \<lparr>db = (db w)(player_key md nm \<mapsto> RString (JSON_stringify (scoreData b today)),
                ranking_key md \<mapsto> RZSet ys), sent = sent w @ cs\<rparr>"
    have z: "zset_at (db w1) (ranking_key md) = Inr ys" by (simp add: w1_def zset_at_def)
    have p: "db w1 (player_key md nm) = Some (RString (JSON_stringify (scoreData b today)))"
      by (simp add: w1_def)
    from Cons.IH [OF rest p b(3) z] obtain rs w' b1 t1 where
      ih: "submit_all rt reqs w1 = (rs, w')" "\<forall>r \<in> set rs. \<exists>resp. r = Inr resp"
        "db w' (player_key md nm) = Some (RString (JSON_stringify (scoreData b1 t1)))"
        "JSON_parse rt (JSON_stringify (scoreData b1 t1)) = Some (scoreData b1 t1)"
        "efficiency b1 = Max (insert (efficiency b) ((efficiency \<circ> snd) ` set reqs))"
      by blast
    have "(efficiency \<circ> snd) ` set (req # reqs)
        = insert (efficiency b) ((efficiency \<circ> snd) ` set reqs)"
      by (simp add: req)
    moreover from False have "efficiency b0 < efficiency b" by simp
    ultimately have mx: "Max (insert (efficiency b0) ((efficiency \<circ> snd) ` set (req # reqs)))
        = Max (insert (efficiency b) ((efficiency \<circ> snd) ` set reqs))"
      using Max_absorb_gt [OF fin, of "efficiency b0" "efficiency b"] by (simp only:)
    have run: "submit_all rt (req # reqs) w = (Inr (Updated r) # rs, w')"
      by (simp add: req step w1_def [symmetric] ih(1))
    have "submit_all rt (req # reqs) w = (Inr (Updated r) # rs, w') \<and>
        (\<forall>r' \<in> set (Inr (Updated r) # rs). \<exists>resp. r' = Inr resp) \<and>
        db w' (player_key md nm) = Some (RString (JSON_stringify (scoreData b1 t1))) \<and>
        JSON_parse rt (JSON_stringify (scoreData b1 t1)) = Some (scoreData b1 t1) \<and>
        efficiency b1 = Max (insert (efficiency b0) ((efficiency \<circ> snd) ` set (req # reqs)))"
      using run ih(2-5) unfolding mx by simp
    then show ?thesis by blast
  qed
qed

subsection \<open>The scenario of 51 players\<close>

lemma submit_new_player:
  fixes b today
  defines "m \<equiv> JSON_stringify (scoreData b today)"
  assumes "db w (player_key (mode b) (name b)) = None"
    and "zset_at (db w) (ranking_key (mode b)) = Inr xs"
  defines "ys \<equiv> take 50 (insort (efficiency b, m) (filter (\<lambda>x. snd x \<noteq> m) xs))"
  shows "fst (submit rt today b w) =
           Inr (Updated (case index_of m (map snd (rev ys)) of
                           None \<Rightarrow> JNum 51 | Some i \<Rightarrow> JNum (int i + 1)))"
    and "db (snd (submit rt today b w)) =
           (db w)(player_key (mode b) (name b) \<mapsto> RString m,
                  ranking_key (mode b) \<mapsto> RZSet ys)"
proof -
  define w1 where "w1 = \<lparr>db = db w, sent = sent w @ [GET (player_key (mode b) (name b))]\<rparr>"
  have "zset_at (db w1) (ranking_key (mode b)) = Inr xs" using assms(3) by (simp add: w1_def)
  from save_score_ok [OF this, of rt today] obtain cs where
    "save_score rt today b w1 =
      (Inr (Updated (case index_of m (map snd (rev ys)) of
                       None \<Rightarrow> JNum 51 | Some i \<Rightarrow> JNum (int i + 1))),
       \<lparr>db = (db w1)(player_key (mode b) (name b) \<mapsto> RString m,
              ranking_key (mode b) \<mapsto> RZSet ys),
        sent = sent w1 @ cs\<rparr>)"
    unfolding m_def ys_def by blast
  then have run: "submit rt today b w =
      (Inr (Updated (case index_of m (map snd (rev ys)) of
                       None \<Rightarrow> JNum 51 | Some i \<Rightarrow> JNum (int i + 1))),
       \<lparr>db = (db w)(player_key (mode b) (name b) \<mapsto> RString m,
              ranking_key (mode b) \<mapsto> RZSet ys),
        sent = sent w1 @ cs\<rparr>)"
    unfolding submit_absent [OF assms(2), of rt today] w1_def [symmetric]
    by (simp add: w1_def)
  show "fst (submit rt today b w) =
           Inr (Updated (case index_of m (map snd (rev ys)) of
                           None \<Rightarrow> JNum 51 | Some i \<Rightarrow> JNum (int i + 1)))"
    by (simp add: run)
  show "db (snd (submit rt today b w)) =
           (db w)(player_key (mode b) (name b) \<mapsto> RString m,
                  ranking_key (mode b) \<mapsto> RZSet ys)"
    by (simp add: run)
qed

lemma submit_new_player_trims:
  fixes b today
  defines "m \<equiv> JSON_stringify (scoreData b today)"
  assumes "db w (player_key (mode b) (name b)) = None"
    and "zset_at (db w) (ranking_key (mode b)) = Inr xs"
    and "50 < length (insort (efficiency b, m) (filter (\<lambda>x. snd x \<noteq> m) xs))"
  shows "ZREMRANGEBYRANK (ranking_key (mode b)) 50 (- 1)
           \<in> set (sent (snd (submit rt today b w)))"
proof -
  define w1 where "w1 = \<lparr>db = db w, sent = sent w @ [GET (player_key (mode b) (name b))]\<rparr>"
  have "zset_at (db w1) (ranking_key (mode b)) = Inr xs" using assms(3) by (simp add: w1_def)
  from save_score_trace [OF this, of rt today] obtain vs where
    "save_score rt today b w1 =
      (Inr (Updated (case index_of m (map snd (rev
                (take 50 (insort (efficiency b, m) (filter (\<lambda>x. snd x \<noteq> m) xs))))) of
                       None \<Rightarrow> JNum 51 | Some i \<Rightarrow> JNum (int i + 1))),
       \<lparr>db = (db w1)(player_key (mode b) (name b) \<mapsto> RString m,
              ranking_key (mode b) \<mapsto>
                RZSet (take 50 (insort (efficiency b, m) (filter (\<lambda>x. snd x \<noteq> m) xs)))),
        sent = sent w1 @ ZADD (ranking_key (mode b)) (efficiency b) m
                 # SET (player_key (mode b) (name b)) m
                 # ZCARD (ranking_key (mode b))
                 # (if 50 < length (insort (efficiency b, m) (filter (\<lambda>x. snd x \<noteq> m) xs))
                    then [ZREMRANGEBYRANK (ranking_key (mode b)) 50 (- 1)] else [])
                 @ ZREVRANK (ranking_key (mode b)) m # vs\<rparr>)"
    unfolding m_def by blast
  then have "sent (snd (save_score rt today b w1)) =
      sent w1 @ ZADD (ranking_key (mode b)) (efficiency b) m
                 # SET (player_key (mode b) (name b)) m
                 # ZCARD (ranking_key (mode b))
                 # ZREMRANGEBYRANK (ranking_key (mode b)) 50 (- 1)
                 # ZREVRANK (ranking_key (mode b)) m # vs"
    using assms(4) by simp
  then show ?thesis
    unfolding submit_absent [OF assms(2), of rt today] w1_def [symmetric] by simp
qed

lemma submit_all_append:
  "submit_all rt (xs @ ys) w =
     (case submit_all rt xs w of
        (rs, w') \<Rightarrow> (case submit_all rt ys w' of (rs', w'') \<Rightarrow> (rs @ rs', w'')))"
  by (induction xs arbitrary: w) (auto split: prod.splits)

lemma show_nat_inj: "show_nat i = show_nat j \<Longrightarrow> i = j"
  by (metis show_nat_value)

lemma escape_digit: "digit_val c < 10 \<Longrightarrow> escape_char c = [c]"
  by (auto simp add: digit_val_def escape_char_def Let_def split: if_splits)

lemma escape_show_nat [simp]: "concat (map escape_char (show_nat i)) = show_nat i"
proof -
  have "\<forall>c \<in> set cs. digit_val c < 10 \<Longrightarrow> concat (map escape_char cs) = cs" for cs
    by (induction cs) (simp_all add: escape_digit)
  then show ?thesis using show_nat_digits by blast
qed

lemma digit_not_quote: "digit_val c < 10 \<Longrightarrow> c \<noteq> CHR 0x22"
  by (auto simp add: digit_val_def)

lemma until_quote:
  assumes "xs @ CHR 0x22 # r = ys @ CHR 0x22 # r'"
    and "CHR 0x22 \<notin> set xs" and "CHR 0x22 \<notin> set ys"
  shows "xs = ys"
proof -
  have tw: "CHR 0x22 \<notin> set zs \<Longrightarrow> takeWhile (\<lambda>c. c \<noteq> CHR 0x22) (zs @ CHR 0x22 # t) = zs"
    for zs t by (induction zs) auto
  from assms(1) have "takeWhile (\<lambda>c. c \<noteq> CHR 0x22) (xs @ CHR 0x22 # r)
      = takeWhile (\<lambda>c. c \<noteq> CHR 0x22) (ys @ CHR 0x22 # r')" by simp
  then show ?thesis by (simp only: tw [OF assms(2)] tw [OF assms(3)])
qed

lemma member_inj:
  assumes "snd (entry_of i) = snd (entry_of j)"
  shows "i = j"
proof -
  have q: "CHR 0x22 \<notin> set (show_nat k)" for k
    using show_nat_digits digit_not_quote by blast
  from assms have "show_nat i = show_nat j"
    by (simp add: entry_of_def scoreData_def player_def quote_def)
       (erule until_quote [OF _ q q])
  then show ?thesis by (rule show_nat_inj)
qed

lemma player_fields [simp]:
  "mode (player i) = ''tracking''" "name (player i) = ''player'' @ show_nat i"
  "efficiency (player i) = int i"
  by (simp_all add: player_def)

lemma entry_of_simps [simp]:
  "fst (entry_of i) = int i"
  "snd (entry_of i) = JSON_stringify (scoreData (player i) ''2025/1/1'')"
  by (simp_all add: entry_of_def)

lemma player_key_inj [simp]: "(player_key m n = player_key m n') = (n = n')"
  by (simp add: player_key_def)

lemma sorted_entries: "sorted (map entry_of [a ..< b])"
proof (induction b)
  case 0
  then show ?case by simp
next
  case (Suc b)
  show ?case
  proof (cases "a \<le> b")
    case True
    have "entry_of i \<le> entry_of b" if "i < b" for i
      using that by (simp add: entry_of_def less_eq_prod_def)
    with Suc True show ?thesis by (auto simp add: sorted_append)
  next
    case False
    then show ?thesis by simp
  qed
qed

lemma roster_Suc: "roster (Suc n) = roster n @ [(''2025/1/1'', player (Suc n))]"
  by (simp add: roster_def)

lemma roster_step:
  fixes rt
  assumes z: "zset_at (db w) ''ranking:tracking'' = Inr (map entry_of [1 ..< Suc n])"
    and p: "\<forall>i > n. db w (player_key ''tracking'' (name (player i))) = None"
  defines "w' \<equiv> snd (submit rt ''2025/1/1'' (player (Suc n)) w)"
  defines "ys \<equiv> take 50 (map entry_of [1 ..< Suc (Suc n)])"
  shows "db w' ''ranking:tracking'' = Some (RZSet ys)"
    and "\<forall>i > Suc n. db w' (player_key ''tracking'' (name (player i))) = None"
    and "fst (submit rt ''2025/1/1'' (player (Suc n)) w) =
           Inr (Updated (case index_of (snd (entry_of (Suc n))) (map snd (rev ys)) of
                           None \<Rightarrow> JNum 51 | Some i \<Rightarrow> JNum (int i + 1)))"
    and "50 \<le> n \<longrightarrow> ZREMRANGEBYRANK ''ranking:tracking'' 50 (- 1) \<in> set (sent w')"
proof -
  define xs where "xs = map entry_of [1 ..< Suc n]"
  define m where "m = JSON_stringify (scoreData (player (Suc n)) ''2025/1/1'')"
  have key: "ranking_key (mode (player (Suc n))) = ''ranking:tracking''"
    by (simp add: ranking_key_def)
  have absent: "db w (player_key (mode (player (Suc n))) (name (player (Suc n)))) = None"
    using p by simp
  have z': "zset_at (db w) (ranking_key (mode (player (Suc n)))) = Inr xs"
    using z by (simp only: key xs_def)
  have "snd x \<noteq> m" if "x \<in> set xs" for x
  proof -
    from that have "x \<in> entry_of ` {1 ..< Suc n}" by (simp only: xs_def set_map set_upt)
    then obtain i where i: "i < Suc n" "x = entry_of i" by auto
    show ?thesis
    proof
      assume "snd x = m"
      then have "snd (entry_of i) = snd (entry_of (Suc n))" by (simp add: i m_def)
      then have "i = Suc n" by (rule member_inj)
      with i show False by simp
    qed
  qed
  then have f: "filter (\<lambda>x. snd x \<noteq> m) xs = xs" by simp
  have "\<forall>x \<in> set xs. x \<le> (int (Suc n), m)"
    by (auto simp add: xs_def entry_of_def less_eq_prod_def)
  then have ins: "insort (int (Suc n), m) xs = xs @ [(int (Suc n), m)]"
    using sorted_entries [of 1 "Suc n"] unfolding xs_def [symmetric]
    by (intro sorted_insort_is_snoc) simp_all
  have e: "(int (Suc n), m) = entry_of (Suc n)" by (simp add: entry_of_def m_def)
  have ins': "insort (entry_of (Suc n)) xs = xs @ [entry_of (Suc n)]"
    using ins by (simp only: e)
  have snoc: "xs @ [entry_of (Suc n)] = map entry_of [1 ..< Suc (Suc n)]"
    by (simp add: xs_def)
  have ys: "take 50 (insort (efficiency (player (Suc n)), m) (filter (\<lambda>x. snd x \<noteq> m) xs)) = ys"
    by (simp only: f player_fields e ins' snoc ys_def)
  note new = submit_new_player [OF absent z', of rt "''2025/1/1''", folded m_def, unfolded ys key]
  have d: "db w' = (db w)(player_key ''tracking'' (name (player (Suc n))) \<mapsto> RString m,
                         ''ranking:tracking'' \<mapsto> RZSet ys)"
    using new(2) by (simp add: w'_def)
  show "db w' ''ranking:tracking'' = Some (RZSet ys)" by (simp add: d)
  have rk: "player_key ''tracking'' n' \<noteq> ''ranking:tracking''" for n'
    by (simp add: player_key_def)
  show "\<forall>i > Suc n. db w' (player_key ''tracking'' (name (player i))) = None"
  proof (intro allI impI)
    fix i assume i: "Suc n < i"
    then have "show_nat i \<noteq> show_nat (Suc n)" using show_nat_inj by blast
    with i p rk show "db w' (player_key ''tracking'' (name (player i))) = None"
      by (simp add: d)
  qed
  show "fst (submit rt ''2025/1/1'' (player (Suc n)) w) =
           Inr (Updated (case index_of (snd (entry_of (Suc n))) (map snd (rev ys)) of
                           None \<Rightarrow> JNum 51 | Some i \<Rightarrow> JNum (int i + 1)))"
    using new(1) by (simp add: m_def)
  show "50 \<le> n \<longrightarrow> ZREMRANGEBYRANK ''ranking:tracking'' 50 (- 1) \<in> set (sent w')"
  proof
    assume n: "50 \<le> n"
    have "insort (efficiency (player (Suc n)), m) (filter (\<lambda>x. snd x \<noteq> m) xs)
        = map entry_of [1 ..< Suc (Suc n)]"
      by (simp only: f player_fields e ins' snoc)
    then have "50 < length (insort (efficiency (player (Suc n)), m) (filter (\<lambda>x. snd x \<noteq> m) xs))"
      using n by simp
    from submit_new_player_trims [OF absent z' this [unfolded m_def], of rt]
    show "ZREMRANGEBYRANK ''ranking:tracking'' 50 (- 1) \<in> set (sent w')"
      by (simp only: key w'_def)
  qed
qed

lemma roster_board:
  "n \<le> 50 \<Longrightarrow>
   zset_at (db (snd (submit_all rt (roster n) empty_world))) ''ranking:tracking''
     = Inr (map entry_of [1 ..< Suc n]) \<and>
   (\<forall>i > n. db (snd (submit_all rt (roster n) empty_world))
              (player_key ''tracking'' (name (player i))) = None)"
proof (induction n)
  case 0
  then show ?case by (simp add: roster_def empty_world_def zset_at_def)
next
  case (Suc n)
  define w where "w = snd (submit_all rt (roster n) empty_world)"
  from Suc have z: "zset_at (db w) ''ranking:tracking'' = Inr (map entry_of [1 ..< Suc n])"
    and p: "\<forall>i > n. db w (player_key ''tracking'' (name (player i))) = None"
    by (simp_all add: w_def)
  have run: "snd (submit_all rt (roster (Suc n)) empty_world)
      = snd (submit rt ''2025/1/1'' (player (Suc n)) w)"
    by (simp add: roster_Suc submit_all_append w_def split: prod.splits)
  have "length (map entry_of [1 ..< Suc (Suc n)]) \<le> 50"
    using Suc.prems by simp
  then have "take 50 (map entry_of [1 ..< Suc (Suc n)]) = map entry_of [1 ..< Suc (Suc n)]"
    by (rule take_all)
  with roster_step [OF z p, of rt] show ?case
    unfolding run by (simp add: zset_at_def)
qed

lemma submit_keeps_bound:
  assumes "submit rt today b w = (Inr resp, w')"
    and "\<forall>m. zcard (db w) (ranking_key m) \<le> 50"
  shows "\<forall>m. zcard (db w') (ranking_key m) \<le> 50"
proof
  fix m
  show "zcard (db w') (ranking_key m) \<le> 50"
  proof (cases "m = mode b")
    case False
    with submit_frame_rankings [OF assms(1)] assms(2) show ?thesis by simp
  next
    case True
    show ?thesis
    proof (cases resp)
      case NotUpdated
      with submit_NotUpdated assms(1) have "db w' = db w" by simp
      with assms(2) show ?thesis by simp
    next
      case (Updated r)
      with submit_accepted_card assms(1) True show ?thesis by simp
    qed
  qed
qed

lemma roster_bound:
  "n \<le> 50 \<Longrightarrow>
   \<forall>m. zcard (db (snd (submit_all rt (roster n) empty_world))) (ranking_key m) \<le> 50"
proof (induction n)
  case 0
  then show ?case by (simp add: roster_def empty_world_def zcard_def)
next
  case (Suc n)
  define w where "w = snd (submit_all rt (roster n) empty_world)"
  from Suc have b: "\<forall>m. zcard (db w) (ranking_key m) \<le> 50" by (simp add: w_def)
  from Suc.prems roster_board [of n rt]
  have z: "zset_at (db w) ''ranking:tracking'' = Inr (map entry_of [1 ..< Suc n])"
    and p: "\<forall>i > n. db w (player_key ''tracking'' (name (player i))) = None"
    by (simp_all add: w_def)
  have run: "snd (submit_all rt (roster (Suc n)) empty_world)
      = snd (submit rt ''2025/1/1'' (player (Suc n)) w)"
    by (simp add: roster_Suc submit_all_append w_def split: prod.splits)
  from roster_step(3) [OF z p, of rt] obtain r where
    "fst (submit rt ''2025/1/1'' (player (Suc n)) w) = Inr (Updated r)"
    by blast
  then have "submit rt ''2025/1/1'' (player (Suc n)) w =
      (Inr (Updated r), snd (submit rt ''2025/1/1'' (player (Suc n)) w))"
    by (simp add: prod_eq_iff)
  from submit_keeps_bound [OF this b] show ?case unfolding run .
qed

lemma roster_full:
  fixes rt
  defines "w \<equiv> snd (submit_all rt (roster 50) empty_world)"
  shows "zcard (db w) (ranking_key ''tracking'') = 50"
    and "fst (submit rt ''2025/1/1'' (player 51) w) = Inr (Updated (JNum 51))"
    and "ZREMRANGEBYRANK ''ranking:tracking'' 50 (- 1)
           \<in> set (sent (snd (submit rt ''2025/1/1'' (player 51) w)))"
    and "zcard (db (snd (submit rt ''2025/1/1'' (player 51) w))) (ranking_key ''tracking'') = 50"
proof -
  have key: "ranking_key ''tracking'' = ''ranking:tracking''" by (simp add: ranking_key_def)
  from roster_board [of 50 rt]
  have z: "zset_at (db w) ''ranking:tracking'' = Inr (map entry_of [1 ..< Suc 50])"
    and p: "\<forall>i > 50. db w (player_key ''tracking'' (name (player i))) = None"
    by (simp_all add: w_def)
  from z show "zcard (db w) (ranking_key ''tracking'') = 50"
    by (auto simp add: key zcard_def zset_at_def split: option.splits rvalue.splits)
  have t: "take 50 (map entry_of [1 ..< Suc (Suc 50)]) = map entry_of [1 ..< 51]"
    by (simp add: take_map)
  have s51: "Suc 50 = (51::nat)" by simp
  note step = roster_step [OF z p, of rt, unfolded t]
  have "snd (entry_of 51) \<notin> set (map snd (rev (map entry_of [1 ..< 51])))"
  proof
    assume "snd (entry_of 51) \<in> set (map snd (rev (map entry_of [1 ..< 51])))"
    then obtain i where "i < 51" "snd (entry_of 51) = snd (entry_of i)" by auto
    then show False using member_inj [of 51 i] by simp
  qed
  then have "index_of (snd (entry_of 51)) (map snd (rev (map entry_of [1 ..< 51]))) = None"
    by (simp only: index_of_None not_False_eq_True)
  then show "fst (submit rt ''2025/1/1'' (player 51) w) = Inr (Updated (JNum 51))"
    using step(3) by (simp only: option.case s51)
  from step(4) show "ZREMRANGEBYRANK ''ranking:tracking'' 50 (- 1)
           \<in> set (sent (snd (submit rt ''2025/1/1'' (player 51) w)))"
    by (simp only: s51 order_refl simp_thms)
  from step(1) show
    "zcard (db (snd (submit rt ''2025/1/1'' (player 51) w))) (ranking_key ''tracking'') = 50"
    by (simp add: key zcard_def)
qed

lemma big_fields [simp]:
  "mode big = ''flick''" "name big = ''Big''" "efficiency big = 1000000000000000000000"
  by (simp_all add: big_def)

lemma show_nat_1e21: "show_nat 1000000000000000000000 = ''1000000000000000000000''"
proof -
  have 0: "char_of (48 :: nat) = CHR ''0''" by code_simp
  have 1: "char_of (49 :: nat) = CHR ''1''" by code_simp
  show ?thesis by (simp add: show_nat.simps 0 1)
qed

lemma Number_toString_1e21: "Number_toString 1000000000000000000000 = ''1e+21''"
proof -
  have "exponent_form 1000000000000000000000 = ''1e+21''"
    unfolding exponent_form_def show_nat_1e21 by code_simp
  then show ?thesis by (simp add: Number_toString_def)
qed

lemma alice_not_big:
  "JSON_stringify (scoreData (alice e) today) \<noteq> JSON_stringify (scoreData big today')"
  by (simp add: scoreData_def alice_def big_def quote_def escape_char_def)

lemma rank_lookup:
  fixes b today
  defines "m \<equiv> JSON_stringify (scoreData b today)"
  assumes "submit rt today b w = (Inr (Updated r), w')"
    and "zset_ok (db w) (ranking_key (mode b))"
  shows "\<exists>ys. db w' (ranking_key (mode b)) = Some (RZSet ys) \<and>
           (if m \<in> snd ` set ys
            then (efficiency b, m) \<in> set ys \<and>
                 r = JNum (1 + int (length (filter
                       (\<lambda>x. efficiency b < fst x \<or> (fst x = efficiency b \<and> m < snd x)) ys)))
            else r = JNum 51)"
proof -
  from submit_accepted [OF assms(2)] obtain xs old ys where
    xs: "zset_at (db w) (ranking_key (mode b)) = Inr xs" and
    ys: "ys = take 50 (insort (efficiency b, m)
                  (filter (\<lambda>x. snd x \<noteq> m) (filter (\<lambda>x. snd x \<noteq> old) xs)))" and
    db: "db w' = (db w)(player_key (mode b) (name b) \<mapsto> RString m,
                 ranking_key (mode b) \<mapsto> RZSet ys)" and
    r: "r = (case index_of m (map snd (rev ys)) of
                  None \<Rightarrow> JNum 51 | Some i \<Rightarrow> JNum (int i + 1))"
    unfolding m_def by blast
  have ok: "sorted xs \<and> distinct (map snd xs)"
    using xs assms(3) by (auto simp add: zset_at_def zset_ok_def split: option.splits rvalue.splits)
  have s: "sorted ys" unfolding ys using ok by (simp add: sorted_take_filter)
  have d: "distinct (map snd ys)" unfolding ys using ok by (intro distinct_members) simp
  have lt: "((efficiency b, m) < x) = (efficiency b < fst x \<or> (fst x = efficiency b \<and> m < snd x))"
    for x :: "int \<times> string"
    by (cases x) (auto simp add: less_prod_def)
  show ?thesis
  proof (cases "m \<in> snd ` set ys")
    case True
    then obtain sc where "(sc, m) \<in> set ys" by force
    moreover from this have "sc = efficiency b" unfolding ys by (rule member_efficiency)
    ultimately have mem: "(efficiency b, m) \<in> set ys" by simp
    from revrank_sorted [OF s d mem] True mem show ?thesis
      by (simp add: db r lt)
  next
    case False
    then have n: "index_of m (map snd (rev ys)) = None" by simp
    from False show ?thesis unfolding r n by (simp add: db)
  qed
qed

subsection \<open>The sample data\<close>

lemma parse_alice [simp]:
  "JSON_parse test_runtime (JSON_stringify (scoreData (alice 80) ''2025/1/1''))
     = Some (scoreData (alice 80) ''2025/1/1'')"
  "JSON_parse test_runtime (JSON_stringify (scoreData (alice 70) ''2025/1/1''))
     = Some (scoreData (alice 70) ''2025/1/1'')"
  "JSON_parse test_runtime (JSON_stringify (scoreData (alice 90) ''2025/1/1''))
     = Some (scoreData (alice 90) ''2025/1/1'')"
  by code_simp+

lemma alice_fields [simp]:
  "mode (alice e) = ''flick''" "name (alice e) = ''Alice''" "efficiency (alice e) = e"
  by (simp_all add: alice_def)

subsection \<open>The commands keep the representation in order\<close>

lemma sorted_cut:
  fixes xs :: "('a :: linorder) list"
  assumes "sorted xs"
  shows "sorted (take a xs @ drop (a + c) xs)"
proof -
  have "xs = take a xs @ take c (drop a xs) @ drop (a + c) xs"
    by (metis append_take_drop_id drop_drop add.commute)
  with assms have "sorted (take a xs @ take c (drop a xs) @ drop (a + c) xs)" by simp
  then show ?thesis by (auto simp add: sorted_append)
qed

lemma distinct_cut:
  assumes "distinct (map f xs)"
  shows "distinct (map f (take a xs @ drop (a + c) xs))"
proof -
  have "xs = take a xs @ take c (drop a xs) @ drop (a + c) xs"
    by (metis append_take_drop_id drop_drop add.commute)
  with assms have "distinct (map f (take a xs @ take c (drop a xs) @ drop (a + c) xs))" by simp
  then show ?thesis by auto
qed

lemma zset_ok_put:
  "zset_ok (put_zset k xs s) k' =
     (if k' = k then sorted xs \<and> distinct (map snd xs) else zset_ok s k')"
  by (simp add: zset_ok_def put_zset_def)

lemma zset_ok_at:
  "zset_ok s k \<Longrightarrow> zset_at s k = Inr xs \<Longrightarrow> sorted xs \<and> distinct (map snd xs)"
  by (auto simp add: zset_ok_def zset_at_def split: option.splits rvalue.splits)

lemma redis_keeps_order:
  assumes "redis c s = Inr (r, s')" and "\<forall>k. zset_ok s k"
  shows "zset_ok s' k"
proof (cases c)
  case (ZADD k' sc m)
  with assms(1) obtain xs where xs: "zset_at s k' = Inr xs"
    and s': "s' = put_zset k' (insort (sc, m) (filter (\<lambda>x. snd x \<noteq> m) xs)) s"
    by (auto split: sum.splits)
  from zset_ok_at [OF _ xs] assms(2) have "sorted xs \<and> distinct (map snd xs)" by simp
  then have "sorted (insort (sc, m) (filter (\<lambda>x. snd x \<noteq> m) xs)) \<and>
      distinct (map snd (insort (sc, m) (filter (\<lambda>x. snd x \<noteq> m) xs)))"
    by (auto simp add: sorted_insort sorted_wrt_filter distinct_snd_insort distinct_map_filter)
  with assms(2) show ?thesis by (simp add: s' zset_ok_put)
next
  case (ZREM k' m)
  with assms(1) obtain xs where xs: "zset_at s k' = Inr xs"
    and s': "s' = put_zset k' (filter (\<lambda>x. snd x \<noteq> m) xs) s"
    by (auto split: sum.splits)
  from zset_ok_at [OF _ xs] assms(2) have "sorted xs \<and> distinct (map snd xs)" by simp
  then have "sorted (filter (\<lambda>x. snd x \<noteq> m) xs) \<and> distinct (map snd (filter (\<lambda>x. snd x \<noteq> m) xs))"
    by (simp add: sorted_wrt_filter distinct_map_filter)
  with assms(2) show ?thesis by (simp add: s' zset_ok_put)
next
  case (ZREMRANGEBYRANK k' start stop)
  with assms(1) obtain xs off cnt where xs: "zset_at s k' = Inr xs"
    and s': "s' = put_zset k' (take off xs @ drop (off + cnt) xs) s"
    by (auto split: sum.splits prod.splits)
  from zset_ok_at [OF _ xs] assms(2) have "sorted xs \<and> distinct (map snd xs)" by simp
  then have "sorted (take off xs @ drop (off + cnt) xs) \<and>
      distinct (map snd (take off xs @ drop (off + cnt) xs))"
    by (simp only: sorted_cut distinct_cut)
  with assms(2) show ?thesis by (simp only: s' zset_ok_put) simp
qed (use assms in \<open>auto simp add: zset_ok_def split: sum.splits option.splits rvalue.splits prod.splits if_splits\<close>)

section \<open>The claims\<close>

subsection \<open>C1: what the trim evicts\<close>

text \<open>
  Claim C1 wants the trim to evict the entries of lowest efficiency: after 51 players
  have submitted the efficiencies 1 to 51, the collection should hold 50 entries without
  the entry of efficiency 1.  The handler does otherwise.  It removes the ranks from 50
  onwards, and the ranks of \<^verbatim>\<open>ZREMRANGEBYRANK\<close> ascend, so it removes the highest
  scores.  In the scenario the first 50 players stay, player 1 among them, and the entry
  of player 51 is removed as soon as it is inserted; that player is told rank 51.  This
  holds for every runtime.
\<close>

theorem trim_removes_highest:
  "\<exists>rs w'. submit_all rt (roster 51) empty_world = (rs, w') \<and>
     last rs = Inr (Updated (JNum 51)) \<and>
     db w' ''ranking:tracking'' = Some (RZSet (map entry_of [1 ..< 51])) \<and>
     entry_of 1 \<in> set (map entry_of [1 ..< 51]) \<and>
     entry_of 51 \<notin> set (map entry_of [1 ..< 51])"
proof -
  define w where "w = snd (submit_all rt (roster 50) empty_world)"
  from roster_board [of 50 rt]
  have z: "zset_at (db w) ''ranking:tracking'' = Inr (map entry_of [1 ..< Suc 50])"
    and p: "\<forall>i > 50. db w (player_key ''tracking'' (name (player i))) = None"
    by (simp_all add: w_def)
  have t: "take 50 (map entry_of [1 ..< Suc (Suc 50)]) = map entry_of [1 ..< 51]"
    by (simp add: take_map)
  note step = roster_step [OF z p, of rt, unfolded t]
  have notin: "entry_of 51 \<notin> set (map entry_of [1 ..< 51])"
  proof
    assume "entry_of 51 \<in> set (map entry_of [1 ..< 51])"
    then obtain i where "i < 51" "entry_of 51 = entry_of i" by auto
    then show False using member_inj [of 51 i] by simp
  qed
  have "snd (entry_of 51) \<notin> set (map snd (rev (map entry_of [1 ..< 51])))"
  proof
    assume "snd (entry_of 51) \<in> set (map snd (rev (map entry_of [1 ..< 51])))"
    then obtain i where "i < 51" "snd (entry_of 51) = snd (entry_of i)" by auto
    then show False using member_inj [of 51 i] by simp
  qed
  then have "index_of (snd (entry_of 51)) (map snd (rev (map entry_of [1 ..< 51]))) = None"
    by (simp only: index_of_None not_False_eq_True)
  moreover have s51: "Suc 50 = (51::nat)" by simp
  ultimately have r: "fst (submit rt ''2025/1/1'' (player 51) w) = Inr (Updated (JNum 51))"
    using step(3) by (simp only: option.case)
  have split: "roster 51 = roster 50 @ [(''2025/1/1'', player 51)]"
    using roster_Suc [of 50] by simp
  obtain rs0 where rs0: "submit_all rt (roster 50) empty_world = (rs0, w)"
    by (cases "submit_all rt (roster 50) empty_world") (simp add: w_def)
  obtain r1 w1 where s1: "submit rt ''2025/1/1'' (player 51) w = (r1, w1)"
    by (cases "submit rt ''2025/1/1'' (player 51) w")
  have "submit_all rt (roster 51) empty_world = (rs0 @ [r1], w1)"
    by (simp add: split submit_all_append rs0 s1)
  moreover have "r1 = Inr (Updated (JNum 51))" using r s1 by simp
  moreover have "db w1 ''ranking:tracking'' = Some (RZSet (map entry_of [1 ..< 51]))"
    using step(1) s1 by simp
  moreover have "entry_of 1 \<in> set (map entry_of [1 ..< 51])" by simp
  ultimately show ?thesis using notin by simp
qed

subsection \<open>C2: the stored best is the maximum\<close>



subsection \<open>C3: a submission that is not higher changes nothing\<close>

text \<open>
  Claim C3: when the record of the player parses to an entry of efficiency \<open>E\<close> and the
  submitted efficiency is at most \<open>E\<close>, the answer is \<^verbatim>\<open>updated: false\<close>, the store is
  what it was, and the only command sent is the \<^verbatim>\<open>GET\<close> of the record.
\<close>

theorem not_higher_is_rejected:
  assumes "db w (player_key (mode b) (name b)) = Some (RString s)"
    and "s \<noteq> []"
    and "JSON_parse rt s = Some existing"
    and "js_get existing ''efficiency'' = Some (JNum E)"
    and "efficiency b \<le> E"
  shows "submit rt today b w =
    (Inr NotUpdated, \<lparr>db = db w, sent = sent w @ [GET (player_key (mode b) (name b))]\<rparr>)"
  using assms by (rule submit_rejects)

theorem not_higher_is_rejected_witness:
  "submit test_runtime ''2025/1/2'' (alice 70) alice_world =
     (Inr NotUpdated,
      \<lparr>db = db alice_world, sent = sent alice_world @ [GET (player_key ''flick'' ''Alice'')]\<rparr>)"
proof -
  have 1: "db alice_world (player_key (mode (alice 70)) (name (alice 70)))
      = Some (RString (JSON_stringify (scoreData (alice 80) ''2025/1/1'')))"
    by (simp add: alice_world_def)
  have 2: "JSON_stringify (scoreData (alice 80) ''2025/1/1'') \<noteq> []" by simp
  have 3: "JSON_parse test_runtime (JSON_stringify (scoreData (alice 80) ''2025/1/1''))
      = Some (scoreData (alice 80) ''2025/1/1'')" by simp
  have 4: "js_get (scoreData (alice 80) ''2025/1/1'') ''efficiency'' = Some (JNum 80)"
    by simp
  have 5: "efficiency (alice 70) \<le> 80" by simp
  from not_higher_is_rejected [OF 1 2 3 4 5, of "''2025/1/2''"] show ?thesis by simp
qed

subsection \<open>C4: at most 50 members\<close>

text \<open>
  Claim C4: after a submission that was answered, the sorted set of every mode has at
  most 50 members, when that was so before.  (After a submission that was accepted the
  set of its mode has at most 50 members whatever it had before, lemma
  \<open>submit_accepted_card\<close>.)
\<close>

theorem submit_bounded:
  assumes "submit rt today b w = (Inr resp, w')"
    and "\<forall>m. zcard (db w) (ranking_key m) \<le> 50"
  shows "\<forall>m. zcard (db w') (ranking_key m) \<le> 50"
  using submit_keeps_bound [OF assms] .

text \<open>
  At a full board: after the 50 players of the roster the set of mode \<^verbatim>\<open>tracking\<close> has
  50 members.  The submission of player 51 makes them 51, the handler sends the trim of
  line 1265, and 50 are left.
\<close>

theorem submit_bounded_witness:
  "zcard (db (snd (submit_all test_runtime (roster 50) empty_world))) (ranking_key ''tracking'')
     = 50 \<and>
   fst (submit test_runtime ''2025/1/1'' (player 51)
          (snd (submit_all test_runtime (roster 50) empty_world)))
     = Inr (Updated (JNum 51)) \<and>
   ZREMRANGEBYRANK ''ranking:tracking'' 50 (- 1)
     \<in> set (sent (snd (submit test_runtime ''2025/1/1'' (player 51)
                        (snd (submit_all test_runtime (roster 50) empty_world))))) \<and>
   (\<forall>m. zcard (db (snd (submit_all test_runtime (roster 50) empty_world))) (ranking_key m)
          \<le> 50) \<and>
   (\<forall>m. zcard (db (snd (submit test_runtime ''2025/1/1'' (player 51)
                          (snd (submit_all test_runtime (roster 50) empty_world)))))
          (ranking_key m) \<le> 50) \<and>
   zcard (db (snd (submit test_runtime ''2025/1/1'' (player 51)
                    (snd (submit_all test_runtime (roster 50) empty_world)))))
     (ranking_key ''tracking'') = 50"
proof -
  let ?w = "snd (submit_all test_runtime (roster 50) empty_world)"
  note full = roster_full [of test_runtime]
  have run: "submit test_runtime ''2025/1/1'' (player 51) ?w =
      (Inr (Updated (JNum 51)), snd (submit test_runtime ''2025/1/1'' (player 51) ?w))"
    using full(2) by (simp add: prod_eq_iff)
  have before: "\<forall>m. zcard (db ?w) (ranking_key m) \<le> 50"
    using roster_bound [of 50 test_runtime] by simp
  from submit_bounded [OF run before] full before show ?thesis by blast
qed

subsection \<open>C5: the rank that is answered\<close>

text \<open>
  Two entries of the same efficiency: Bob submits 80 to an empty store, then Alice
  submits 80.  The store orders equal scores by the bytes of the member, and
  \<^verbatim>\<open>ZREVRANK\<close> counts from the top, so Bob's entry is ahead of Alice's.
\<close>

lemma tie_scenario:
  fixes ma mb w1
  defines "ma \<equiv> JSON_stringify (scoreData (alice 80) ''2025/1/1'')"
  defines "mb \<equiv> JSON_stringify (scoreData bob ''2025/1/1'')"
  defines "w1 \<equiv> snd (submit test_runtime ''2025/1/1'' bob empty_world)"
  shows "zset_ok (db w1) ''ranking:flick''"
    and "fst (submit test_runtime ''2025/1/1'' (alice 80) w1) = Inr (Updated (JNum 2))"
    and "db (snd (submit test_runtime ''2025/1/1'' (alice 80) w1)) ''ranking:flick''
           = Some (RZSet [(80, ma), (80, mb)])"
proof -
  have bob: "mode bob = ''flick''" "name bob = ''Bob''" "efficiency bob = 80"
    by (simp_all add: bob_def)
  have key: "ranking_key ''flick'' = ''ranking:flick''" by (simp add: ranking_key_def)
  have a0: "db empty_world (player_key (mode bob) (name bob)) = None"
    by (simp add: empty_world_def)
  have z0: "zset_at (db empty_world) (ranking_key (mode bob)) = Inr []"
    by (simp add: empty_world_def zset_at_def)
  from submit_new_player(2) [OF a0 z0, of test_runtime "''2025/1/1''"]
  have d1: "db w1 = (db empty_world)(player_key ''flick'' ''Bob'' \<mapsto> RString mb,
                                     ''ranking:flick'' \<mapsto> RZSet [(80, mb)])"
    by (simp add: w1_def mb_def bob key)
  show ok: "zset_ok (db w1) ''ranking:flick''" by (simp add: d1 zset_ok_def)
  have rk: "player_key ''flick'' n \<noteq> ''ranking:flick''" for n
    by (simp add: player_key_def)
  have a1: "db w1 (player_key (mode (alice 80)) (name (alice 80))) = None"
    using rk by (simp add: d1 empty_world_def)
  have z1: "zset_at (db w1) (ranking_key (mode (alice 80))) = Inr [(80, mb)]"
    by (simp add: d1 key zset_at_def)
  have board: "take 50 (insort (80 :: int, ma) (filter (\<lambda>x. snd x \<noteq> ma) [(80, mb)]))
      = [(80, ma), (80, mb)]"
    unfolding ma_def mb_def by code_simp
  have rank: "index_of ma (map snd (rev [(80 :: int, ma), (80, mb)])) = Some 1"
    unfolding ma_def mb_def by code_simp
  note new = submit_new_player [OF a1 z1, of test_runtime "''2025/1/1''",
      folded ma_def, unfolded alice_fields board rank key]
  from new(1) show "fst (submit test_runtime ''2025/1/1'' (alice 80) w1) = Inr (Updated (JNum 2))"
    by simp
  from new(2) show "db (snd (submit test_runtime ''2025/1/1'' (alice 80) w1)) ''ranking:flick''
           = Some (RZSet [(80, ma), (80, mb)])"
    by simp
qed

text \<open>
  Claim C5, first half as stated: the rank answered for an entry that stays is 1 plus
  the number of entries of strictly greater efficiency.  In the scenario no entry has an
  efficiency above 80, and Alice is answered rank 2.
\<close>

theorem rank_counts_ties_counterexample:
  "fst (submit test_runtime ''2025/1/1'' (alice 80)
         (snd (submit test_runtime ''2025/1/1'' bob empty_world)))
     = Inr (Updated (JNum 2)) \<and>
   db (snd (submit test_runtime ''2025/1/1'' (alice 80)
         (snd (submit test_runtime ''2025/1/1'' bob empty_world)))) ''ranking:flick''
     = Some (RZSet [(80, JSON_stringify (scoreData (alice 80) ''2025/1/1'')),
                    (80, JSON_stringify (scoreData bob ''2025/1/1''))]) \<and>
   JNum 2 \<noteq> JNum (1 + int (length (filter (\<lambda>x. 80 < fst x)
                    [(80 :: int, JSON_stringify (scoreData (alice 80) ''2025/1/1'')),
                     (80, JSON_stringify (scoreData bob ''2025/1/1''))])))"
  using tie_scenario(2,3) by simp

text \<open>
  Claim C5 as amended: when the store's representation is in order and the submission
  is accepted, the collection after the trim is some \<open>ys\<close>; if the new member is in
  \<open>ys\<close>, the rank answered is 1 plus the number of entries of \<open>ys\<close> that have a greater
  efficiency, or the same efficiency and a member that the store orders after the new
  one; if it is not in \<open>ys\<close>, the rank answered is 51.
\<close>

theorem submit_rank:
  assumes "submit rt today b w = (Inr (Updated r), w')"
    and "zset_ok (db w) (ranking_key (mode b))"
  shows "\<exists>ys. db w' (ranking_key (mode b)) = Some (RZSet ys) \<and>
           (if JSON_stringify (scoreData b today) \<in> snd ` set ys
            then (efficiency b, JSON_stringify (scoreData b today)) \<in> set ys \<and>
                 r = JNum (1 + int (length (filter
                       (\<lambda>x. efficiency b < fst x \<or>
                            (fst x = efficiency b \<and> JSON_stringify (scoreData b today) < snd x))
                       ys)))
            else r = JNum 51)"
  using rank_lookup [OF assms] .

theorem submit_rank_witness:
  "fst (submit test_runtime ''2025/1/1'' (alice 80)
         (snd (submit test_runtime ''2025/1/1'' bob empty_world)))
     = Inr (Updated (JNum 2)) \<and>
   zset_ok (db (snd (submit test_runtime ''2025/1/1'' bob empty_world)))
     (ranking_key (mode (alice 80))) \<and>
   (\<exists>ys. db (snd (submit test_runtime ''2025/1/1'' (alice 80)
                (snd (submit test_runtime ''2025/1/1'' bob empty_world))))
            (ranking_key (mode (alice 80))) = Some (RZSet ys) \<and>
      (if JSON_stringify (scoreData (alice 80) ''2025/1/1'') \<in> snd ` set ys
       then (efficiency (alice 80), JSON_stringify (scoreData (alice 80) ''2025/1/1'')) \<in> set ys \<and>
            JNum 2 = JNum (1 + int (length (filter
                (\<lambda>x. efficiency (alice 80) < fst x \<or>
                     (fst x = efficiency (alice 80) \<and>
                      JSON_stringify (scoreData (alice 80) ''2025/1/1'') < snd x))
                ys)))
       else JNum 2 = JNum 51))"
proof -
  let ?w1 = "snd (submit test_runtime ''2025/1/1'' bob empty_world)"
  have key: "ranking_key (mode (alice 80)) = ''ranking:flick''"
    by (simp add: ranking_key_def)
  have run: "submit test_runtime ''2025/1/1'' (alice 80) ?w1 =
      (Inr (Updated (JNum 2)), snd (submit test_runtime ''2025/1/1'' (alice 80) ?w1))"
    using tie_scenario(2) by (simp add: prod_eq_iff)
  have ok: "zset_ok (db ?w1) (ranking_key (mode (alice 80)))"
    using tie_scenario(1) by (simp only: key)
  from submit_rank [OF run ok] tie_scenario(2) ok show ?thesis by blast
qed

subsection \<open>C6: the efficiency of an entry is the score of its pair\<close>

text \<open>
  Claim C6: the \<open>i\<close>-th entry that the loop produces has the efficiency that
  \<^verbatim>\<open>parseInt\<close> reads from the score of the \<open>i\<close>-th pair, whatever the member parses to.
\<close>

theorem efficiency_is_score:
  assumes "i < length scores div 2"
  shows "entry_efficiency (parse_rankings rt scores ! i)
           = parseInt (ToString (scores ! (2 * i + 1)))"
  using assms by (simp add: parse_rankings_nth)

text \<open>A member that carries the efficiency 80 paired with the score 95.\<close>

theorem efficiency_is_score_witness:
  "(0 :: nat) < length [JStr (JSON_stringify (scoreData (alice 80) ''2025/1/1'')), JStr ''95''] div 2 \<and>
   JSON_parse test_runtime (JSON_stringify (scoreData (alice 80) ''2025/1/1''))
     = Some (scoreData (alice 80) ''2025/1/1'') \<and>
   js_get (scoreData (alice 80) ''2025/1/1'') ''efficiency'' = Some (JNum 80) \<and>
   entry_efficiency
     (parse_rankings test_runtime
        [JStr (JSON_stringify (scoreData (alice 80) ''2025/1/1'')), JStr ''95''] ! 0)
     = Some 95"
proof -
  have 1: "(0 :: nat) < length [JStr (JSON_stringify (scoreData (alice 80) ''2025/1/1'')), JStr ''95''] div 2"
    by simp
  have "parseInt ''95'' = Some 95" by code_simp
  with efficiency_is_score [OF 1, of test_runtime] 1 show ?thesis by simp
qed

subsection \<open>C7: the rankings descend\<close>

text \<open>
  A score that is written in exponent form: Alice submits 80 to an empty store, then Big
  submits \<^verbatim>\<open>1e21\<close>.  Both are accepted, and Big is told rank 1.  The handler sends the
  score of Big as \<^verbatim>\<open>efficiency.toString()\<close> (line 1214), which is \<^verbatim>\<open>1e+21\<close>; a fetch gets
  the score in this form, and \<^verbatim>\<open>parseInt\<close> (line 1077) reads the efficiency 1 from it.
\<close>

lemma exponent_scenario:
  fixes ma mb w1 w2
  defines "ma \<equiv> JSON_stringify (scoreData (alice 80) ''2025/1/1'')"
  defines "mb \<equiv> JSON_stringify (scoreData big ''2025/1/1'')"
  defines "w1 \<equiv> snd (submit test_runtime ''2025/1/1'' (alice 80) empty_world)"
  defines "w2 \<equiv> snd (submit test_runtime ''2025/1/1'' big w1)"
  shows "fst (submit test_runtime ''2025/1/1'' (alice 80) empty_world) = Inr (Updated (JNum 1))"
    and "fst (submit test_runtime ''2025/1/1'' big w1) = Inr (Updated (JNum 1))"
    and "db w2 ''ranking:flick'' = Some (RZSet [(80, ma), (1000000000000000000000, mb)])"
    and "zset_ok (db w2) (ranking_key ''flick'')"
    and "fst (fetch test_runtime ''flick'' w2) =
           Inr [parse_entry test_runtime (JStr mb) (JStr ''1e+21''),
                parse_entry test_runtime (JStr ma) (JStr ''80'')]"
proof -
  have key: "ranking_key ''flick'' = ''ranking:flick''" by (simp add: ranking_key_def)
  have ne: "ma \<noteq> mb" unfolding ma_def mb_def by (rule alice_not_big)
  have a0: "db empty_world (player_key (mode (alice 80)) (name (alice 80))) = None"
    by (simp add: empty_world_def)
  have z0: "zset_at (db empty_world) (ranking_key (mode (alice 80))) = Inr []"
    by (simp add: empty_world_def zset_at_def)
  note first = submit_new_player [OF a0 z0, of test_runtime "''2025/1/1''", folded ma_def]
  from first(1) show
    "fst (submit test_runtime ''2025/1/1'' (alice 80) empty_world) = Inr (Updated (JNum 1))"
    by simp
  from first(2)
  have d1: "db w1 = (db empty_world)(player_key ''flick'' ''Alice'' \<mapsto> RString ma,
                                     ''ranking:flick'' \<mapsto> RZSet [(80, ma)])"
    by (simp add: w1_def key)
  have rk: "player_key ''flick'' n \<noteq> ''ranking:flick''" for n
    by (simp add: player_key_def)
  have a1: "db w1 (player_key (mode big) (name big)) = None"
    using rk by (simp add: d1 empty_world_def)
  have z1: "zset_at (db w1) (ranking_key (mode big)) = Inr [(80, ma)]"
    by (simp add: d1 key zset_at_def)
  have board: "take 50 (insort (1000000000000000000000 :: int, mb)
                  (filter (\<lambda>x. snd x \<noteq> mb) [(80, ma)]))
      = [(80, ma), (1000000000000000000000, mb)]"
    using ne by (simp add: less_eq_prod_def)
  have rank: "index_of mb (map snd (rev [(80 :: int, ma), (1000000000000000000000, mb)]))
      = Some 0"
    by simp
  note second = submit_new_player [OF a1 z1, of test_runtime "''2025/1/1''",
      folded mb_def, unfolded big_fields board rank key]
  from second(1) show "fst (submit test_runtime ''2025/1/1'' big w1) = Inr (Updated (JNum 1))"
    by simp
  from second(2)
  show d2: "db w2 ''ranking:flick'' = Some (RZSet [(80, ma), (1000000000000000000000, mb)])"
    by (simp add: w2_def)
  have "sorted [(80 :: int, ma), (1000000000000000000000, mb)] \<and>
        distinct (map snd [(80 :: int, ma), (1000000000000000000000, mb)])"
    using ne by (simp add: less_eq_prod_def)
  then show "zset_ok (db w2) (ranking_key ''flick'')"
    by (simp only: zset_ok_def key d2 option.case rvalue.case)
  have z2: "zset_at (db w2) (ranking_key (if ''flick'' = [] then ''flick'' else ''flick''))
      = Inr [(80, ma), (1000000000000000000000, mb)]"
    by (simp add: d2 key zset_at_def)
  have small: "Number_toString 80 = ''80''" by code_simp
  have "parse_rankings test_runtime
          (concat (map (\<lambda>(sc, m). [JStr m, JStr (Number_toString sc)])
             (take 50 (rev [(80 :: int, ma), (1000000000000000000000, mb)]))))
      = [parse_entry test_runtime (JStr mb) (JStr ''1e+21''),
         parse_entry test_runtime (JStr ma) (JStr ''80'')]"
    by (simp add: Number_toString_1e21 small)
  with fetch_answer [OF z2, of test_runtime]
  show "fst (fetch test_runtime ''flick'' w2) =
           Inr [parse_entry test_runtime (JStr mb) (JStr ''1e+21''),
                parse_entry test_runtime (JStr ma) (JStr ''80'')]"
    by (simp only:)
qed




subsection \<open>C8: a reply of odd length\<close>

text \<open>
  Claim C8: of a reply of odd length the loop decodes the pairs and leaves the last
  element out: there are as many entries as pairs, and they are the entries of the reply
  without its last element.
\<close>

theorem odd_reply_truncated:
  assumes "odd (length scores)"
  shows "length (parse_rankings rt scores) = length scores div 2 \<and>
         parse_rankings rt scores = parse_rankings rt (butlast scores)"
  using assms by (intro conjI parse_rankings_length parse_rankings_odd)

theorem odd_reply_truncated_witness:
  "odd (length [JStr ''Carol'', JStr ''70'', JStr ''Dave'']) \<and>
   length (parse_rankings test_runtime [JStr ''Carol'', JStr ''70'', JStr ''Dave'']) = 1 \<and>
   parse_rankings test_runtime [JStr ''Carol'', JStr ''70'', JStr ''Dave'']
     = parse_rankings test_runtime [JStr ''Carol'', JStr ''70'']"
proof -
  have 1: "odd (length [JStr ''Carol'', JStr ''70'', JStr ''Dave''])" by simp
  from odd_reply_truncated [OF 1, of test_runtime] 1 show ?thesis by simp
qed

subsection \<open>C9: the reset of all rankings\<close>


subsection \<open>C10: a record that cannot be read\<close>

text \<open>
  Claim C10: when the value under the player's key does not parse, or parses to a value
  without the property \<^verbatim>\<open>efficiency\<close>, and the sorted set of the mode is not a string,
  the submission is accepted whatever its efficiency.  After the \<^verbatim>\<open>GET\<close> of the player's
  key the handler sends the \<^verbatim>\<open>ZADD\<close> of the new entry and the \<^verbatim>\<open>SET\<close> of the player's key,
  and no \<^verbatim>\<open>ZREM\<close> is among the commands sent.  Afterwards the player's key holds the new
  entry, and the sorted set of the mode holds what it held without a member equal to the
  new one, with the new entry inserted at its efficiency and trimmed to 50.  The answer
  is the rank of the new entry there, and answer and store are those of the same
  submission made where the player's key does not exist.
\<close>

theorem unreadable_record_is_no_record:
  assumes "db w (player_key (mode b) (name b)) = Some (RString s)"
    and "JSON_parse rt s = None \<or>
         (\<exists>v. JSON_parse rt s = Some v \<and> js_get v ''efficiency'' = None)"
    and "zset_at (db w) (ranking_key (mode b)) = Inr xs"
  shows "\<exists>r w' cs.
           submit rt today b w = (Inr (Updated r), w') \<and>
           sent w' = sent w @ GET (player_key (mode b) (name b))
                       # ZADD (ranking_key (mode b)) (efficiency b)
                           (JSON_stringify (scoreData b today))
                       # SET (player_key (mode b) (name b)) (JSON_stringify (scoreData b today))
                       # cs \<and>
           (\<forall>k v. ZREM k v \<notin> set cs) \<and>
           db w' = (db w)
             (player_key (mode b) (name b) \<mapsto> RString (JSON_stringify (scoreData b today)),
              ranking_key (mode b) \<mapsto>
                RZSet (take 50 (insort (efficiency b, JSON_stringify (scoreData b today))
                         (filter (\<lambda>x. snd x \<noteq> JSON_stringify (scoreData b today)) xs)))) \<and>
           r = (case index_of (JSON_stringify (scoreData b today))
                       (map snd (rev (take 50
                          (insort (efficiency b, JSON_stringify (scoreData b today))
                             (filter (\<lambda>x. snd x \<noteq> JSON_stringify (scoreData b today)) xs))))) of
                  None \<Rightarrow> JNum 51
                | Some i \<Rightarrow> JNum (int i + 1)) \<and>
           fst (submit rt today b (w\<lparr>db := (db w)(player_key (mode b) (name b) := None)\<rparr>))
             = Inr (Updated r) \<and>
           db (snd (submit rt today b (w\<lparr>db := (db w)(player_key (mode b) (name b) := None)\<rparr>)))
             = db w'"
proof -
  define pk where "pk = player_key (mode b) (name b)"
  define key where "key = ranking_key (mode b)"
  define m where "m = JSON_stringify (scoreData b today)"
  define ys where "ys = take 50 (insort (efficiency b, m) (filter (\<lambda>x. snd x \<noteq> m) xs))"
  define r where "r = (case index_of m (map snd (rev ys)) of
                         None \<Rightarrow> JNum 51 | Some i \<Rightarrow> JNum (int i + 1))"
  define w1 where "w1 = \<lparr>db = db w, sent = sent w @ [GET pk]\<rparr>"
  define w0 where "w0 = w\<lparr>db := (db w)(pk := None)\<rparr>"
  have sub: "submit rt today b w = save_score rt today b w1"
    unfolding w1_def pk_def using assms(1,2) by (rule submit_no_prior)
  have "zset_at (db w1) (ranking_key (mode b)) = Inr xs"
    using assms(3) by (simp add: w1_def)
  from save_score_trace [OF this, of rt today] obtain vs where
    run: "save_score rt today b w1 =
      (Inr (Updated r),
       \<lparr>db = (db w1)(pk \<mapsto> RString m, key \<mapsto> RZSet ys),
        sent = sent w1 @ ZADD key (efficiency b) m # SET pk m # ZCARD key
                 # (if 50 < length (insort (efficiency b, m) (filter (\<lambda>x. snd x \<noteq> m) xs))
                    then [ZREMRANGEBYRANK key 50 (- 1)] else [])
                 @ ZREVRANK key m # vs\<rparr>)"
    and vs: "set vs \<subseteq> {ZCARD key, ZREVRANGE key 0 9, ZSCORE key m}"
    unfolding r_def ys_def m_def pk_def key_def by blast
  define cs where "cs = ZCARD key
      # (if 50 < length (insort (efficiency b, m) (filter (\<lambda>x. snd x \<noteq> m) xs))
         then [ZREMRANGEBYRANK key 50 (- 1)] else [])
      @ ZREVRANK key m # vs"
  have cs: "\<forall>k v. ZREM k v \<notin> set cs" using vs by (auto simp add: cs_def)
  have a0: "db w0 (player_key (mode b) (name b)) = None" by (simp add: w0_def pk_def)
  have z0: "zset_at (db w0) (ranking_key (mode b)) = Inr xs"
    using assms(3) by (simp add: w0_def pk_def)
  note new = submit_new_player [OF a0 z0, of rt today,
      folded m_def, folded ys_def, folded r_def pk_def key_def]
  have same: "(db w0)(pk \<mapsto> RString m, key \<mapsto> RZSet ys)
      = (db w)(pk \<mapsto> RString m, key \<mapsto> RZSet ys)"
    by (auto simp add: w0_def fun_eq_iff)
  let ?w' = "\<lparr>db = (db w)(pk \<mapsto> RString m, key \<mapsto> RZSet ys),
             sent = sent w @ GET pk # ZADD key (efficiency b) m # SET pk m # cs\<rparr>"
  have "submit rt today b w = (Inr (Updated r), ?w')"
    using run by (simp add: sub w1_def cs_def)
  moreover have "sent ?w' = sent w @ GET pk # ZADD key (efficiency b) m # SET pk m # cs"
    by simp
  moreover have "db ?w' = (db w)(pk \<mapsto> RString m, key \<mapsto> RZSet ys)" by simp
  moreover have "fst (submit rt today b w0) = Inr (Updated r)" using new(1) .
  moreover have "db (snd (submit rt today b w0)) = db ?w'" using new(2) same by simp
  ultimately have "submit rt today b w = (Inr (Updated r), ?w') \<and>
        sent ?w' = sent w @ GET pk # ZADD key (efficiency b) m # SET pk m # cs \<and>
        (\<forall>k v. ZREM k v \<notin> set cs) \<and>
        db ?w' = (db w)(pk \<mapsto> RString m, key \<mapsto> RZSet ys) \<and>
        r = (case index_of m (map snd (rev ys)) of
               None \<Rightarrow> JNum 51 | Some i \<Rightarrow> JNum (int i + 1)) \<and>
        fst (submit rt today b w0) = Inr (Updated r) \<and>
        db (snd (submit rt today b w0)) = db ?w'"
    using cs r_def by blast
  then show ?thesis unfolding w0_def pk_def key_def m_def ys_def by blast
qed

text \<open>
  Alice submits the efficiency 70 where the value under her key is no JSON text and no
  ranking exists: she is told rank 1, and the ranking holds her entry at the score 70.
\<close>

theorem unreadable_record_is_no_record_witness:
  "db garbage_world (player_key (mode (alice 70)) (name (alice 70)))
     = Some (RString ''not json'') \<and>
   JSON_parse test_runtime ''not json'' = None \<and>
   zset_at (db garbage_world) (ranking_key (mode (alice 70))) = Inr [] \<and>
   (\<exists>w' cs.
      submit test_runtime ''2025/1/1'' (alice 70) garbage_world = (Inr (Updated (JNum 1)), w') \<and>
      sent w' = sent garbage_world @ GET (player_key ''flick'' ''Alice'')
                  # ZADD (ranking_key ''flick'') 70
                      (JSON_stringify (scoreData (alice 70) ''2025/1/1''))
                  # SET (player_key ''flick'' ''Alice'')
                      (JSON_stringify (scoreData (alice 70) ''2025/1/1''))
                  # cs \<and>
      (\<forall>k v. ZREM k v \<notin> set cs) \<and>
      db w' (ranking_key ''flick'')
        = Some (RZSet [(70, JSON_stringify (scoreData (alice 70) ''2025/1/1''))]) \<and>
      db w' (player_key ''flick'' ''Alice'')
        = Some (RString (JSON_stringify (scoreData (alice 70) ''2025/1/1''))))"
proof -
  define m where "m = JSON_stringify (scoreData (alice 70) ''2025/1/1'')"
  have 1: "db garbage_world (player_key (mode (alice 70)) (name (alice 70)))
      = Some (RString ''not json'')"
    by (simp add: garbage_world_def)
  have p: "JSON_parse test_runtime ''not json'' = None" by code_simp
  then have 2: "JSON_parse test_runtime ''not json'' = None \<or>
      (\<exists>v. JSON_parse test_runtime ''not json'' = Some v \<and> js_get v ''efficiency'' = None)"
    by simp
  have 3: "zset_at (db garbage_world) (ranking_key (mode (alice 70))) = Inr []"
    by (simp add: garbage_world_def zset_at_def)
  from unreadable_record_is_no_record [OF 1 2 3, of "''2025/1/1''"]
  obtain r w' cs where
    run: "submit test_runtime ''2025/1/1'' (alice 70) garbage_world = (Inr (Updated r), w')"
    and tr: "sent w' = sent garbage_world @ GET (player_key (mode (alice 70)) (name (alice 70)))
                       # ZADD (ranking_key (mode (alice 70))) (efficiency (alice 70))
                           (JSON_stringify (scoreData (alice 70) ''2025/1/1''))
                       # SET (player_key (mode (alice 70)) (name (alice 70))) (JSON_stringify (scoreData (alice 70) ''2025/1/1''))
                       # cs"
    and no: "\<forall>k v. ZREM k v \<notin> set cs"
    and d: "db w' = (db garbage_world)
             ((player_key (mode (alice 70)) (name (alice 70))) \<mapsto> RString (JSON_stringify (scoreData (alice 70) ''2025/1/1'')),
              (ranking_key (mode (alice 70))) \<mapsto>
                RZSet (take 50 (insort (efficiency (alice 70), JSON_stringify (scoreData (alice 70) ''2025/1/1'')) (filter (\<lambda>x. snd x \<noteq> JSON_stringify (scoreData (alice 70) ''2025/1/1'')) []))))"
    and r: "r = (case index_of (JSON_stringify (scoreData (alice 70) ''2025/1/1''))
                       (map snd (rev (take 50 (insort (efficiency (alice 70), JSON_stringify (scoreData (alice 70) ''2025/1/1'')) (filter (\<lambda>x. snd x \<noteq> JSON_stringify (scoreData (alice 70) ''2025/1/1'')) []))))) of
                  None \<Rightarrow> JNum 51
                | Some i \<Rightarrow> JNum (int i + 1))"
    by (elim exE conjE) (rule that)
  note tr' = tr [folded m_def, unfolded alice_fields]
  have board: "take 50 (insort (efficiency (alice 70), m) (filter (\<lambda>x. snd x \<noteq> m) []))
      = [(70, m)]"
    by simp
  note d' = d [folded m_def, unfolded board alice_fields]
  have "r = JNum 1" using r [folded m_def, unfolded board] by simp
  note run' = run [unfolded this]
  have b1: "db w' (ranking_key ''flick'') = Some (RZSet [(70, m)])" by (simp add: d')
  have b2: "db w' (player_key ''flick'' ''Alice'') = Some (RString m)" by (simp add: d')
  have "submit test_runtime ''2025/1/1'' (alice 70) garbage_world = (Inr (Updated (JNum 1)), w') \<and>
      sent w' = sent garbage_world @ GET (player_key ''flick'' ''Alice'')
                  # ZADD (ranking_key ''flick'') 70 m # SET (player_key ''flick'' ''Alice'') m # cs \<and>
      (\<forall>k v. ZREM k v \<notin> set cs) \<and>
      db w' (ranking_key ''flick'') = Some (RZSet [(70, m)]) \<and>
      db w' (player_key ''flick'' ''Alice'') = Some (RString m)"
    using run' tr' no b1 b2 by (intro conjI)
  then have "\<exists>w' cs.
      submit test_runtime ''2025/1/1'' (alice 70) garbage_world = (Inr (Updated (JNum 1)), w') \<and>
      sent w' = sent garbage_world @ GET (player_key ''flick'' ''Alice'')
                  # ZADD (ranking_key ''flick'') 70 m # SET (player_key ''flick'' ''Alice'') m # cs \<and>
      (\<forall>k v. ZREM k v \<notin> set cs) \<and>
      db w' (ranking_key ''flick'') = Some (RZSet [(70, m)]) \<and>
      db w' (player_key ''flick'' ''Alice'') = Some (RString m)"
    by (intro exI)
  with 1 p 3 show ?thesis unfolding m_def by (intro conjI)
qed

end
